theory Spec2Isabelle
  imports Main
begin

section \<open>JavaScript strings\<close>

text \<open>
  A JavaScript string is a sequence of UTF-16 code units. The model keeps the code units
  U+0000 to U+00FF (ASCII and Latin-1), which is the range of the type \<open>char\<close>; every
  pattern of the modelled code is written in ASCII. The character classes below are the
  ECMAScript ones cut down to that range: \<open>\s\<close> and \<open>trim\<close> know TAB, LF, VT, FF, CR,
  SPACE and NBSP; the dot of a regular expression excludes LF and CR; \<open>\w\<close> is
  \<open>[A-Za-z0-9_]\<close>.
\<close>

type_synonym js_string = string

definition code_unit :: "char \<Rightarrow> nat" where
  "code_unit c = of_char c"

definition isWhiteSpace :: "char \<Rightarrow> bool" where
  "isWhiteSpace c = (let n = code_unit c in (9 \<le> n \<and> n \<le> 13) \<or> n = 32 \<or> n = 160)"

definition isLineTerminator :: "char \<Rightarrow> bool" where
  "isLineTerminator c = (let n = code_unit c in n = 10 \<or> n = 13)"

definition isDigit :: "char \<Rightarrow> bool" where
  "isDigit c = (let n = code_unit c in 48 \<le> n \<and> n \<le> 57)"

definition isAsciiUpper :: "char \<Rightarrow> bool" where
  "isAsciiUpper c = (let n = code_unit c in 65 \<le> n \<and> n \<le> 90)"

definition isAsciiLower :: "char \<Rightarrow> bool" where
  "isAsciiLower c = (let n = code_unit c in 97 \<le> n \<and> n \<le> 122)"

definition isWordChar :: "char \<Rightarrow> bool" where
  "isWordChar c = (isAsciiLower c \<or> isAsciiUpper c \<or> isDigit c \<or> c = CHR ''_'')"

text \<open>
  \<open>String.prototype.toLowerCase\<close> on the Latin-1 range: A to Z, and the accented capitals
  U+00C0 to U+00DE without the multiplication sign U+00D7, move up by 32.
\<close>

definition toLowerCase_unit :: "char \<Rightarrow> char" where
  "toLowerCase_unit c =
     (let n = code_unit c in
      if (65 \<le> n \<and> n \<le> 90) \<or> (192 \<le> n \<and> n \<le> 222 \<and> n \<noteq> 215)
      then char_of (n + 32) else c)"

definition toLowerCase :: "js_string \<Rightarrow> js_string" where
  "toLowerCase s = map toLowerCase_unit s"

definition trim :: "js_string \<Rightarrow> js_string" where
  "trim s = rev (dropWhile isWhiteSpace (rev (dropWhile isWhiteSpace s)))"

definition startsWith :: "js_string \<Rightarrow> js_string \<Rightarrow> bool" where
  "startsWith s p = (take (length p) s = p)"

text \<open>\<open>s.indexOf(p)\<close>: the first position where \<open>p\<close> starts, or -1.\<close>

fun indexOf_at :: "nat \<Rightarrow> js_string \<Rightarrow> js_string \<Rightarrow> int" where
  "indexOf_at i [] p = (if p = [] then int i else - 1)"
| "indexOf_at i (c # cs) p =
     (if startsWith (c # cs) p then int i else indexOf_at (Suc i) cs p)"

definition indexOf :: "js_string \<Rightarrow> js_string \<Rightarrow> int" where
  "indexOf s p = indexOf_at 0 s p"

text \<open>\<open>s.replace(/[P]+/g, r)\<close>: every maximal run of characters of the class becomes \<open>r\<close>.\<close>

function replace_runs :: "(char \<Rightarrow> bool) \<Rightarrow> js_string \<Rightarrow> js_string \<Rightarrow> js_string" where
  "replace_runs P r [] = []"
| "replace_runs P r (c # cs) =
     (if P c then r @ replace_runs P r (dropWhile P cs) else c # replace_runs P r cs)"
  by pat_completeness auto
termination
  by (relation "measure (\<lambda>(P, r, s). length s)")
     (auto simp: less_Suc_eq_le length_dropWhile_le)

text \<open>\<open>s.replace(/p/g, r)\<close> for a literal, non-empty pattern \<open>p\<close>.\<close>

function replaceAll :: "js_string \<Rightarrow> js_string \<Rightarrow> js_string \<Rightarrow> js_string" where
  "replaceAll p r [] = []"
| "replaceAll p r (c # cs) =
     (if p \<noteq> [] \<and> startsWith (c # cs) p
      then r @ replaceAll p r (drop (length p) (c # cs))
      else c # replaceAll p r cs)"
  by pat_completeness auto
termination
  by (relation "measure (\<lambda>(p, r, s). length s)") auto

section \<open>Heading identifiers (parser.ts)\<close>

text \<open>
  \<^verbatim>\<open>text.toLowerCase().replace(/[^\w\s-]/g, '').replace(/\s+/g, '-')
      .replace(/-+/g, '-').trim()\<close>
\<close>

definition keptInId :: "char \<Rightarrow> bool" where
  "keptInId c = (isWordChar c \<or> isWhiteSpace c \<or> c = CHR ''-'')"

definition generateId :: "js_string \<Rightarrow> js_string" where
  "generateId text =
     trim (replace_runs (\<lambda>c. c = CHR ''-'') ''-''
       (replace_runs isWhiteSpace ''-''
         (filter keptInId (toLowerCase text))))"

text \<open>
  The identifier as the specification describes it: only \<open>[a-z0-9-]\<close>, no hyphen at either
  end, no two hyphens in a row.
\<close>

fun has_double_hyphen :: "js_string \<Rightarrow> bool" where
  "has_double_hyphen (a # b # cs) =
     ((a = CHR ''-'' \<and> b = CHR ''-'') \<or> has_double_hyphen (b # cs))"
| "has_double_hyphen _ = False"

definition endsWith :: "js_string \<Rightarrow> js_string \<Rightarrow> bool" where
  "endsWith s p = startsWith (rev s) (rev p)"

definition spec_identifier :: "js_string \<Rightarrow> bool" where
  "spec_identifier s =
     (list_all (\<lambda>c. isAsciiLower c \<or> isDigit c \<or> c = CHR ''-'') s \<and>
      \<not> startsWith s ''-'' \<and> \<not> endsWith s ''-'' \<and> \<not> has_double_hyphen s)"

text \<open>What the code keeps: the specification's characters and the underscore of \<open>\w\<close>.\<close>

definition isIdChar :: "char \<Rightarrow> bool" where
  "isIdChar c = (isAsciiLower c \<or> isDigit c \<or> c = CHR ''_'' \<or> c = CHR ''-'')"

section \<open>Escaping and decoding (template.ts, highlighter.ts)\<close>

text \<open>
  \<^verbatim>\<open>text.replace(/[&<>"']/g, char => map[char])\<close> with the five entries of \<open>map\<close>.
\<close>

definition escapeHtml_unit :: "char \<Rightarrow> js_string" where
  \<open>escapeHtml_unit c =
     (if c = CHR ''&'' then ''&amp;''
      else if c = CHR ''<'' then ''&lt;''
      else if c = CHR ''>'' then ''&gt;''
      else if c = CHR 0x22 then ''&quot;''
      else if c = CHR 0x27 then ''&#39;''
      else [c])\<close>

definition escapeHtml :: "js_string \<Rightarrow> js_string" where
  "escapeHtml text = concat (map escapeHtml_unit text)"

text \<open>
  \<open>decodeHtml\<close>: five global replacements, one after the other, the ampersand first.
\<close>

definition decodeHtml :: "js_string \<Rightarrow> js_string" where
  \<open>decodeHtml html =
     replaceAll ''&#39;'' [CHR 0x27]
       (replaceAll ''&quot;'' [CHR 0x22]
         (replaceAll ''&gt;'' ''>''
           (replaceAll ''&lt;'' ''<''
             (replaceAll ''&amp;'' ''&'' html))))\<close>



section \<open>The section wrapper (template.ts)\<close>

text \<open>
  \<open>wrapContentSections\<close> first replaces every match of
  \<^verbatim>\<open>/(<h2[^>]*>.*?<\/h2>)((?:(?!<h2)[\s\S])*)/g\<close>
  by \<^verbatim>\<open><div class="section">$1$2</div>\<close>. The expression has one way to match at a
  given position: \<open>[^>]*\<close> must stop at the first \<open>>\<close>, the lazy \<open>.*?\<close> stops at the first
  \<open></h2>\<close> and gives up at a line terminator, and the second group takes every character
  up to the next \<open><h2\<close> or the end.
\<close>

definition section_open :: js_string where
  \<open>section_open = ''<div class="section">''\<close>

definition section_close :: js_string where
  \<open>section_close = ''</div>''\<close>

text \<open>\<open>[^>]*>\<close>: the characters up to and including the first \<open>>\<close>.\<close>

fun tag_rest :: "js_string \<Rightarrow> js_string option" where
  "tag_rest [] = None"
| "tag_rest (c # cs) =
     (if c = CHR ''>'' then Some [c] else map_option (\<lambda>t. c # t) (tag_rest cs))"

text \<open>\<open>.*?</h2>\<close>: the characters up to and including the first \<open></h2>\<close> on the line.\<close>

fun heading_rest :: "js_string \<Rightarrow> js_string option" where
  "heading_rest [] = None"
| "heading_rest (c # cs) =
     (if startsWith (c # cs) ''</h2>'' then Some ''</h2>''
      else if isLineTerminator c then None
      else map_option (\<lambda>t. c # t) (heading_rest cs))"

text \<open>\<open>(?:(?!<h2)[\s\S])*\<close>: the characters before the next \<open><h2\<close>.\<close>

fun section_body :: "js_string \<Rightarrow> js_string" where
  "section_body [] = []"
| "section_body (c # cs) =
     (if startsWith (c # cs) ''<h2'' then [] else c # section_body cs)"

text \<open>The match at the start of \<open>s\<close>, if there is one: the groups \<open>$1\<close> and \<open>$2\<close>.\<close>

definition match_h2 :: "js_string \<Rightarrow> (js_string \<times> js_string) option" where
  "match_h2 s =
     (if startsWith s ''<h2'' then
        (case tag_rest (drop 3 s) of
           None \<Rightarrow> None
         | Some t \<Rightarrow>
            (case heading_rest (drop (3 + length t) s) of
               None \<Rightarrow> None
             | Some h \<Rightarrow>
                 Some (''<h2'' @ t @ h, section_body (drop (3 + length t + length h) s))))
      else None)"

text \<open>
  The global scan: at each position either a match, after which the scan goes on behind
  it, or one character that is copied.
\<close>

datatype piece = Unmatched char | Section js_string js_string

function h2_pieces :: "js_string \<Rightarrow> piece list" where
  "h2_pieces [] = []"
| "h2_pieces (c # cs) =
     (case match_h2 (c # cs) of
        None \<Rightarrow> Unmatched c # h2_pieces cs
      | Some (g1, g2) \<Rightarrow>
          Section g1 g2 # h2_pieces (drop (length g1 + length g2 - 1) cs))"
  by pat_completeness auto
termination
  by (relation "measure length") auto

text \<open>What a piece stands for in the body, and what the replacement puts in its place.\<close>

fun piece_source :: "piece \<Rightarrow> js_string" where
  "piece_source (Unmatched c) = [c]"
| "piece_source (Section g1 g2) = g1 @ g2"

fun piece_wrapped :: "piece \<Rightarrow> js_string" where
  "piece_wrapped (Unmatched c) = [c]"
| "piece_wrapped (Section g1 g2) = section_open @ g1 @ g2 @ section_close"

definition replace_h2_sections :: "js_string \<Rightarrow> js_string" where
  "replace_h2_sections html = concat (map piece_wrapped (h2_pieces html))"

definition wrapContentSections :: "js_string \<Rightarrow> js_string" where
  "wrapContentSections html =
     (let wrapped = replace_h2_sections html;
          firstH2Index = indexOf wrapped ''<h2''
      in if firstH2Index > 0 then
           (let beforeFirstH2 = take (nat firstH2Index) wrapped;
                afterFirstH2 = drop (nat firstH2Index) wrapped
            in if trim beforeFirstH2 \<noteq> []
               then section_open @ beforeFirstH2 @ section_close @ afterFirstH2
               else wrapped)
         else wrapped)"

text \<open>
  The notions the properties of the wrapper are stated with. \<open>occurs s p\<close> says that \<open>p\<close>
  starts somewhere in \<open>s\<close>. An output of the wrapper is read as a sequence of marks: a
  character of the body, an inserted opening tag or an inserted closing tag.
\<close>

fun occurs :: "js_string \<Rightarrow> js_string \<Rightarrow> bool" where
  "occurs [] p = (p = [])"
| "occurs (c # cs) p = (startsWith (c # cs) p \<or> occurs cs p)"

text \<open>The number of places in \<open>s\<close> where \<open>p\<close> starts.\<close>

fun occurrences :: "js_string \<Rightarrow> js_string \<Rightarrow> nat" where
  "occurrences [] p = (if p = [] then 1 else 0)"
| "occurrences (c # cs) p = (if startsWith (c # cs) p then 1 else 0) + occurrences cs p"

datatype mark = Orig char | OpenTag | CloseTag

fun mark_text :: "mark \<Rightarrow> js_string" where
  "mark_text (Orig c) = [c]"
| "mark_text OpenTag = section_open"
| "mark_text CloseTag = section_close"

definition marks_text :: "mark list \<Rightarrow> js_string" where
  "marks_text ms = concat (map mark_text ms)"

fun mark_body :: "mark \<Rightarrow> js_string" where
  "mark_body (Orig c) = [c]"
| "mark_body OpenTag = []"
| "mark_body CloseTag = []"

text \<open>The text that is left when the inserted tags are deleted.\<close>

definition without_wrappers :: "mark list \<Rightarrow> js_string" where
  "without_wrappers ms = concat (map mark_body ms)"

text \<open>
  The nesting depth after reading the marks, starting at depth \<open>d\<close>; \<open>None\<close> when a closing
  tag has no opening tag before it. The tags match when the depth returns to 0.
\<close>

fun depth_after :: "mark list \<Rightarrow> nat \<Rightarrow> nat option" where
  "depth_after [] d = Some d"
| "depth_after (Orig c # ms) d = depth_after ms d"
| "depth_after (OpenTag # ms) d = depth_after ms (Suc d)"
| "depth_after (CloseTag # ms) d = (case d of 0 \<Rightarrow> None | Suc e \<Rightarrow> depth_after ms e)"

definition tags_match :: "mark list \<Rightarrow> bool" where
  "tags_match ms = (depth_after ms 0 = Some 0)"

text \<open>The marks of a piece after the replacement.\<close>

fun piece_marks :: "piece \<Rightarrow> mark list" where
  "piece_marks (Unmatched c) = [Orig c]"
| "piece_marks (Section g1 g2) = OpenTag # map Orig (g1 @ g2) @ [CloseTag]"

text \<open>
  A second-level heading element, as the wrapper's expression reads one: \<open><h2\<close>, the
  attributes up to the first \<open>>\<close>, and the text up to and including the first \<open></h2>\<close>,
  all of that text on one line.
\<close>

definition heading_element :: "js_string \<Rightarrow> bool" where
  "heading_element g =
     (let attrs = takeWhile (\<lambda>c. c \<noteq> CHR ''>'') (drop 3 g);
          inner = drop (4 + length attrs) g
      in startsWith g ''<h2'' \<and> 3 + length attrs < length g \<and>
         endsWith inner ''</h2>'' \<and> list_all (\<lambda>c. \<not> isLineTerminator c) inner \<and>
         occurrences inner ''</h2>'' = 1)"

text \<open>A heading element starts at the beginning of \<open>s\<close>: one of its prefixes is one.\<close>

definition heading_starts :: "js_string \<Rightarrow> bool" where
  "heading_starts s = list_ex (\<lambda>n. heading_element (take n s)) [0..<Suc (length s)]"






section \<open>Cover page, table of contents and the assembled document (template.ts)\<close>

text \<open>
  The front matter with the fields the code reads, at the types \<open>types.ts\<close> declares. A date
  is a string when the document quotes it; YAML turns an unquoted date into a Date object,
  which the code formats with \<open>toLocaleDateString\<close>. That formatting belongs to the
  runtime and its locale, so it is a parameter \<open>localeDate\<close> of the model. A missing key
  is \<open>None\<close>. A condition on a string-valued field follows JavaScript: the empty string
  counts as false.
\<close>

datatype 'd date_value = DateString js_string | DateObject 'd

record 'd FrontMatter =
  title :: "js_string option"
  author :: "js_string option"
  date :: "'d date_value option"
  subtitle :: "js_string option"
  fm_keywords :: "js_string option"

definition truthy :: "js_string option \<Rightarrow> bool" where
  "truthy v = (case v of None \<Rightarrow> False | Some s \<Rightarrow> s \<noteq> [])"

definition truthy_date :: "'d date_value option \<Rightarrow> bool" where
  "truthy_date v =
     (case v of None \<Rightarrow> False | Some (DateString s) \<Rightarrow> s \<noteq> [] | Some (DateObject d) \<Rightarrow> True)"

text \<open>\<open>v ? f(v) : ''\<close> for a string-valued field.\<close>

definition when_truthy :: "js_string option \<Rightarrow> (js_string \<Rightarrow> js_string) \<Rightarrow> js_string" where
  "when_truthy v f = (case v of None \<Rightarrow> [] | Some s \<Rightarrow> if s \<noteq> [] then f s else [])"

fun join :: "js_string \<Rightarrow> js_string list \<Rightarrow> js_string" where
  "join sep [] = []"
| "join sep [x] = x"
| "join sep (x # y # ys) = x @ sep @ join sep (y # ys)"

definition cover_title :: "js_string \<Rightarrow> js_string" where
  \<open>cover_title t = ''<h1 class="cover-title">'' @ escapeHtml t @ ''</h1>''\<close>

definition cover_subtitle :: "js_string \<Rightarrow> js_string" where
  \<open>cover_subtitle t = ''<p class="cover-subtitle">'' @ escapeHtml t @ ''</p>''\<close>

definition cover_author :: "js_string \<Rightarrow> js_string" where
  \<open>cover_author t = ''<p><strong>Author:</strong> '' @ escapeHtml t @ ''</p>''\<close>

definition cover_date :: "js_string \<Rightarrow> js_string" where
  \<open>cover_date t = ''<p><strong>Date:</strong> '' @ escapeHtml t @ ''</p>''\<close>

definition date_text :: "('d \<Rightarrow> js_string) \<Rightarrow> 'd date_value \<Rightarrow> js_string" where
  "date_text localeDate v = (case v of DateString s \<Rightarrow> s | DateObject d \<Rightarrow> localeDate d)"

definition metaParts :: "('d \<Rightarrow> js_string) \<Rightarrow> 'd FrontMatter \<Rightarrow> js_string list" where
  "metaParts localeDate frontMatter =
     (case author frontMatter of
        None \<Rightarrow> []
      | Some a \<Rightarrow> if a \<noteq> [] then [cover_author a] else []) @
     (case date frontMatter of
        None \<Rightarrow> []
      | Some v \<Rightarrow>
          if truthy_date (Some v) then [cover_date (date_text localeDate v)] else [])"

definition cover_meta :: "js_string list \<Rightarrow> js_string" where
  \<open>cover_meta parts =
     (if length parts > 0
      then ''<div class="cover-meta">'' @ join ''\<newline>'' parts @ ''</div>''
      else [])\<close>

definition generateCoverPage :: "('d \<Rightarrow> js_string) \<Rightarrow> 'd FrontMatter \<Rightarrow> js_string" where
  \<open>generateCoverPage localeDate frontMatter =
     (if \<not> truthy (title frontMatter) \<and> \<not> truthy (author frontMatter) \<and>
         \<not> truthy_date (date frontMatter)
      then []
      else ''<div class="cover-page">\<newline>  '' @
           when_truthy (title frontMatter) cover_title @ ''\<newline>  '' @
           when_truthy (subtitle frontMatter) cover_subtitle @ ''\<newline>  '' @
           cover_meta (metaParts localeDate frontMatter) @ ''\<newline></div>'')\<close>


text \<open>The decimal digits of a number, as a template literal prints it.\<close>

definition digit_char :: "nat \<Rightarrow> char" where
  "digit_char d = char_of (48 + d)"

function show_nat :: "nat \<Rightarrow> js_string" where
  "show_nat n = (if n < 10 then [digit_char n] else show_nat (n div 10) @ [digit_char (n mod 10)])"
  by pat_completeness auto
termination
  by (relation "measure (\<lambda>n. n)") auto

declare show_nat.simps [simp del]

record TocItem =
  item_id :: js_string
  item_title :: js_string
  item_level :: nat

definition toc_entry :: "TocItem \<Rightarrow> js_string" where
  \<open>toc_entry item =
     ''<li class="toc-item toc-level-'' @ show_nat (item_level item) @ ''">\<newline>'' @
     ''  <a href="#'' @ item_id item @ ''">'' @ escapeHtml (item_title item) @ ''</a>\<newline>'' @
     ''  <span class="toc-item-page"></span>\<newline>'' @
     ''</li>''\<close>

definition generateToc :: "TocItem list \<Rightarrow> js_string" where
  \<open>generateToc toc =
     (if length toc = 0 then []
      else ''<div class="toc">\<newline>'' @
           ''  <h1 class="toc-title">Table of Contents</h1>\<newline>'' @
           ''  <ul class="toc-list">\<newline>'' @
           ''    '' @ join ''\<newline>'' (map toc_entry toc) @ ''\<newline>'' @
           ''  </ul>\<newline>'' @
           ''</div>'')\<close>

text \<open>The link of an entry in the table of contents.\<close>

definition toc_link :: "TocItem \<Rightarrow> js_string" where
  \<open>toc_link item = ''<a href="#'' @ item_id item @ ''">''\<close>

definition getAdditionalStyles :: js_string where
  \<open>getAdditionalStyles =
       ''\<newline>'' @
       ''    /* Section wrapper for better page breaks */\<newline>'' @
       ''    .section {\<newline>'' @
       ''      page-break-inside: auto;\<newline>'' @
       ''      break-inside: auto;\<newline>'' @
       ''    }\<newline>'' @
       ''\<newline>'' @
       ''    /* Ensure all major containers respect margins */\<newline>'' @
       ''    .content,\<newline>'' @
       ''    .cover-page,\<newline>'' @
       ''    .toc {\<newline>'' @
       ''      width: 100%;\<newline>'' @
       ''      max-width: 100%;\<newline>'' @
       ''      box-sizing: border-box;\<newline>'' @
       ''    }\<newline>'' @
       ''  ''\<close>

section \<open>Themes (themes.ts)\<close>

text \<open>
  The style sheets are long constants of \<open>themes.ts\<close> whose text plays no part in the
  resolution of a name; the model takes them as the record \<open>sheets\<close>: the base rules and the
  rules each of the three other themes appends to them.
\<close>

record Theme =
  name :: js_string
  css :: js_string

record sheets =
  baseStyles :: js_string
  darkStyles :: js_string
  academicStyles :: js_string
  minimalStyles :: js_string

definition githubTheme :: "sheets \<Rightarrow> Theme" where
  "githubTheme sh = \<lparr>name = ''github'', css = baseStyles sh\<rparr>"

definition githubDarkTheme :: "sheets \<Rightarrow> Theme" where
  "githubDarkTheme sh = \<lparr>name = ''github-dark'', css = baseStyles sh @ darkStyles sh\<rparr>"

definition academicTheme :: "sheets \<Rightarrow> Theme" where
  "academicTheme sh = \<lparr>name = ''academic'', css = baseStyles sh @ academicStyles sh\<rparr>"

definition minimalTheme :: "sheets \<Rightarrow> Theme" where
  "minimalTheme sh = \<lparr>name = ''minimal'', css = baseStyles sh @ minimalStyles sh\<rparr>"

text \<open>
  \<open>themes\<close> is an object literal, so \<open>themes[themeName]\<close> finds the four own keys and, for
  any other name, what the object inherits from \<open>Object.prototype\<close>: functions, and the
  prototype itself under \<open>__proto__\<close>. Each of these is an object, hence true in the
  condition of \<open>||\<close>, and none has a \<open>css\<close> property. A name that is found nowhere gives
  \<open>undefined\<close>, and \<open>||\<close> then yields \<open>githubTheme\<close>.
\<close>

definition object_prototype_members :: "js_string list" where
  "object_prototype_members =
     [''constructor'', ''__defineGetter__'', ''__defineSetter__'', ''hasOwnProperty'',
      ''__lookupGetter__'', ''__lookupSetter__'', ''isPrototypeOf'', ''propertyIsEnumerable'',
      ''toString'', ''valueOf'', ''__proto__'', ''toLocaleString'']"

datatype 'a property = Own 'a | Inherited js_string | Undefined

text \<open>\<open>obj[key]\<close> for an object literal with the given own entries.\<close>

definition get_property :: "(js_string \<times> 'a) list \<Rightarrow> js_string \<Rightarrow> 'a property" where
  "get_property obj key =
     (case map_of obj key of
        Some v \<Rightarrow> Own v
      | None \<Rightarrow> if key \<in> set object_prototype_members then Inherited key else Undefined)"

definition themes :: "sheets \<Rightarrow> (js_string \<times> Theme) list" where
  "themes sh =
     [(''github'', githubTheme sh),
      (''github-dark'', githubDarkTheme sh),
      (''academic'', academicTheme sh),
      (''minimal'', minimalTheme sh)]"

text \<open>
  \<open>getTheme(themeName = 'github')\<close> returns \<open>themes[themeName] || githubTheme\<close>; the result
  is either a bundle or an inherited member, never \<open>undefined\<close>.
\<close>

definition getTheme :: "sheets \<Rightarrow> js_string option \<Rightarrow> Theme property" where
  "getTheme sh themeName =
     (let themeName = (case themeName of None \<Rightarrow> ''github'' | Some n \<Rightarrow> n) in
      case get_property (themes sh) themeName of
        Undefined \<Rightarrow> Own (githubTheme sh)
      | found \<Rightarrow> found)"

definition getAvailableThemes :: "js_string list" where
  "getAvailableThemes = [''github'', ''github-dark'', ''academic'', ''minimal'']"

text \<open>\<open>${theme.css}\<close> in a template literal: a missing property prints as \<open>undefined\<close>.\<close>

definition css_text :: "Theme property \<Rightarrow> js_string" where
  "css_text v = (case v of Own t \<Rightarrow> css t | _ \<Rightarrow> ''undefined'')"

section \<open>The assembled document (template.ts)\<close>

record 'd ParsedMarkdown =
  content :: js_string
  frontMatter :: "'d FrontMatter"
  toc :: "TocItem list"
  html :: js_string

record PdfOptions =
  opt_input :: js_string
  opt_output :: "js_string option"
  opt_theme :: "js_string option"
  opt_toc :: bool
  opt_pageNumbers :: bool
  opt_css :: "js_string option"

definition document_title :: "js_string option \<Rightarrow> js_string" where
  "document_title t = (if truthy t then when_truthy t (\<lambda>s. s) else ''Document'')"

definition generateHtml ::
  "sheets \<Rightarrow> ('d \<Rightarrow> js_string) \<Rightarrow> 'd ParsedMarkdown \<Rightarrow> PdfOptions \<Rightarrow> js_string" where
  \<open>generateHtml sh localeDate parsed options =
     (let theme = getTheme sh (opt_theme options);
          coverPage = generateCoverPage localeDate (frontMatter parsed);
          tocHtml = (if opt_toc options then generateToc (toc parsed) else []);
          wrappedContent = wrapContentSections (html parsed)
      in ''<!DOCTYPE html>\<newline>'' @
         ''<html lang="en">\<newline>'' @
         ''<head>\<newline>'' @
         ''  <meta charset="UTF-8">\<newline>'' @
         ''  <meta name="viewport" content="width=device-width, initial-scale=1.0">\<newline>'' @
         ''  <title>'' @
         escapeHtml (document_title (title (frontMatter parsed))) @
         ''</title>\<newline>'' @
         ''  <style>\<newline>'' @
         ''    '' @
         css_text theme @ ''\<newline>    '' @
         getAdditionalStyles @ ''\<newline>    '' @
         when_truthy (opt_css options) (\<lambda>c. ''/* Custom CSS */\<newline>'' @ c) @
         ''\<newline>'' @
         ''  </style>\<newline>'' @
         ''</head>\<newline>'' @
         ''<body>\<newline>'' @
         ''  '' @
         coverPage @ ''\<newline>  '' @
         tocHtml @
         ''\<newline>'' @
         ''  <div class="content">\<newline>'' @
         ''    '' @
         wrappedContent @
         ''\<newline>'' @
         ''  </div>\<newline>'' @
         ''</body>\<newline>'' @
         ''</html>'')\<close>




section \<open>Markdown parsing and the table of contents (parser.ts)\<close>

text \<open>
  \<open>parseMarkdown\<close> hands the text to two libraries: gray-matter splits off the front matter,
  and marked turns the rest into tokens and renders them, calling \<open>renderer.heading(text,
  level, raw)\<close> once for each heading token, in document order. The libraries are the
  parameters \<open>matter\<close>, \<open>lexer\<close> and \<open>originalHeading\<close> (marked's own heading renderer, to
  which the hook of \<open>parseMarkdown\<close> delegates); a token other than a heading stands for its
  rendered markup.
\<close>

datatype token = Heading js_string nat js_string | Block js_string

record 'd marked_library =
  matter :: "js_string \<Rightarrow> 'd FrontMatter \<times> js_string"
  lexer :: "js_string \<Rightarrow> token list"
  originalHeading :: "js_string \<Rightarrow> nat \<Rightarrow> js_string \<Rightarrow> js_string"

text \<open>
  The hook: it computes the identifier, pushes an entry for the levels 1 to 3 and returns
  what \<open>originalHeading(text, level, raw)\<close> returns.
\<close>

definition heading ::
  "(js_string \<Rightarrow> nat \<Rightarrow> js_string \<Rightarrow> js_string) \<Rightarrow> js_string \<Rightarrow> nat \<Rightarrow> js_string \<Rightarrow>
   TocItem list \<Rightarrow> js_string \<times> TocItem list" where
  "heading original text level raw toc0 =
     (let ident = generateId raw;
          toc1 = (if level \<le> 3
                  then toc0 @ [\<lparr>item_id = ident, item_title = raw, item_level = level\<rparr>]
                  else toc0)
      in (original text level raw, toc1))"

fun render_tokens ::
  "(js_string \<Rightarrow> nat \<Rightarrow> js_string \<Rightarrow> js_string) \<Rightarrow> token list \<Rightarrow> TocItem list \<Rightarrow>
   js_string \<times> TocItem list" where
  "render_tokens original [] toc0 = ([], toc0)"
| "render_tokens original (Heading text level raw # ts) toc0 =
     (let (h, toc1) = heading original text level raw toc0;
          (rest, toc2) = render_tokens original ts toc1
      in (h @ rest, toc2))"
| "render_tokens original (Block b # ts) toc0 =
     (let (rest, toc1) = render_tokens original ts toc0 in (b @ rest, toc1))"

definition parseMarkdown :: "'d marked_library \<Rightarrow> js_string \<Rightarrow> 'd ParsedMarkdown" where
  "parseMarkdown lib text =
     (let (fm, markdownContent) = matter lib text;
          (rendered, entries) = render_tokens (originalHeading lib) (lexer lib markdownContent) []
      in \<lparr>content = markdownContent, frontMatter = fm, toc = entries, html = rendered\<rparr>)"

text \<open>
  The notions the properties of the table of contents are stated with: the headings of a
  token sequence with their levels and raw texts, in document order; the markup of one
  token; the levels the table of contents lists; and the levels marked produces.
\<close>

fun headings :: "token list \<Rightarrow> (nat \<times> js_string) list" where
  "headings [] = []"
| "headings (Heading text level raw # ts) = (level, raw) # headings ts"
| "headings (Block b # ts) = headings ts"

fun token_markup :: "(js_string \<Rightarrow> nat \<Rightarrow> js_string \<Rightarrow> js_string) \<Rightarrow> token \<Rightarrow> js_string" where
  "token_markup original (Heading text level raw) = original text level raw"
| "token_markup original (Block b) = b"

definition toc_level :: "nat \<Rightarrow> bool" where
  "toc_level l = (l = 1 \<or> l = 2 \<or> l = 3)"

definition levels_1_to_6 :: "token list \<Rightarrow> bool" where
  "levels_1_to_6 ts = list_all (\<lambda>(l, r). 1 \<le> l \<and> l \<le> 6) (headings ts)"

text \<open>
  The link targets as the specification wants them: \<open>anchors\<close> are the identifiers the
  rendered headings of levels 1 to 3 carry, in document order; each is the identifier of
  the entry of its heading, and the target of every entry is the anchor of exactly one
  heading.
\<close>

definition links_resolve :: "js_string option list \<Rightarrow> TocItem list \<Rightarrow> bool" where
  "links_resolve anchors entries =
     list_all (\<lambda>e. length (filter (\<lambda>a. a = Some (item_id e)) anchors) = 1) entries"

definition spec_links :: "js_string option list \<Rightarrow> TocItem list \<Rightarrow> bool" where
  "spec_links anchors entries =
     (anchors = map (\<lambda>e. Some (item_id e)) entries \<and> links_resolve anchors entries)"

record validation =
  valid :: bool
  error :: "js_string option"

definition validateMarkdown :: "js_string \<Rightarrow> validation" where
  "validateMarkdown text =
     (if text = [] \<or> length (trim text) = 0
      then \<lparr>valid = False, error = Some ''Markdown content is empty''\<rparr>
      else if length text > 10 * 1024 * 1024
      then \<lparr>valid = False, error = Some ''Markdown file is too large (max 10MB)''\<rparr>
      else \<lparr>valid = True, error = None\<rparr>)"

text \<open>
  The size of the file that \<open>fs.readFile(path, 'utf-8')\<close> decodes to a text: UTF-8 takes one
  byte for a code unit below U+0080 and two bytes for the others of the modelled range.
\<close>

definition utf8_size :: "js_string \<Rightarrow> nat" where
  "utf8_size doc = sum_list (map (\<lambda>c. if code_unit c < 128 then 1 else 2) doc)"

section \<open>The conversion (converter.ts)\<close>

text \<open>
  \<open>convertMarkdownToPdf\<close> runs inside one \<open>try\<close>: whatever a step throws ends the conversion
  with a failure result. The file system, the highlighter, the PDF renderer and the
  metadata writer are collaborators outside the repository; the record \<open>world\<close> says what
  each of them answers. A value of type \<open>'a effect\<close> is a computation that appends the
  collaborators it calls to a log and either throws or returns.
\<close>

datatype thrown = Error js_string | NotAnError

datatype stage =
  Stat | ReadFile | ParseMarkdown | ProcessCodeBlocks | ReadCss | Mkdir | GeneratePdf |
  AddMetadata | GetPdfStats

datatype stat_answer = IsFile | IsNotFile | ENOENT | StatFails thrown

record 'd world =
  sheets_of :: sheets
  localeDate_of :: "'d \<Rightarrow> js_string"
  marked_of :: "'d marked_library"
  marked_throws :: "js_string \<Rightarrow> thrown option"
  stat :: "js_string \<Rightarrow> stat_answer"
  readFile :: "js_string \<Rightarrow> thrown + js_string"
  processCodeBlocks :: "js_string \<Rightarrow> js_string property \<Rightarrow> thrown + js_string"
  defaultOutputPath :: "js_string \<Rightarrow> js_string"
  dirname :: "js_string \<Rightarrow> js_string"
  mkdir :: "js_string \<Rightarrow> thrown + unit"
  generatePdf :: "js_string \<Rightarrow> js_string \<Rightarrow> PdfOptions \<Rightarrow> js_string option \<Rightarrow> thrown + unit"
  addMetadata :: "js_string \<Rightarrow> 'd FrontMatter \<Rightarrow> thrown + unit"
  getPdfStats :: "js_string \<Rightarrow> thrown + nat \<times> nat"
  startTime :: int
  endTime :: int

type_synonym 'a effect = "stage list \<Rightarrow> (thrown + 'a) \<times> stage list"

definition returns :: "'a \<Rightarrow> 'a effect" where
  "returns x log = (Inr x, log)"

definition calls :: "stage \<Rightarrow> (thrown + 'a) \<Rightarrow> 'a effect" where
  "calls st answer log = (answer, log @ [st])"

definition and_then :: "'a effect \<Rightarrow> ('a \<Rightarrow> 'b effect) \<Rightarrow> 'b effect" where
  "and_then m f log =
     (case m log of
        (Inl e, log1) \<Rightarrow> (Inl e, log1)
      | (Inr x, log1) \<Rightarrow> f x log1)"

record conversion_stats =
  pages :: nat
  size :: nat
  duration :: int

record ConversionResult =
  success :: bool
  outputPath :: js_string
  result_error :: "js_string option"
  stats :: "conversion_stats option"

text \<open>
  \<open>validateInputFile\<close>: a missing file and a path that is not a file are errors with a
  message; any other failure of \<open>fs.stat\<close> is thrown on as it is.
\<close>

definition validateInputFile :: "'d world \<Rightarrow> js_string \<Rightarrow> unit effect" where
  "validateInputFile w inputPath =
     calls Stat
       (case stat w inputPath of
          IsFile \<Rightarrow> Inr ()
        | IsNotFile \<Rightarrow> Inl (Error (''Input path is not a file: '' @ inputPath))
        | ENOENT \<Rightarrow> Inl (Error (''Input file not found: '' @ inputPath))
        | StatFails e \<Rightarrow> Inl e)"

definition mapThemeToHighlightTheme :: "js_string option \<Rightarrow> js_string property" where
  "mapThemeToHighlightTheme theme =
     (case get_property
             [(''github'', ''github-light''), (''github-dark'', ''github-dark''),
              (''academic'', ''github-light''), (''minimal'', ''github-light'')]
             (if truthy theme then when_truthy theme (\<lambda>s. s) else ''github'') of
        Undefined \<Rightarrow> Own ''github-dark''
      | found \<Rightarrow> found)"

text \<open>The custom style sheet: a file that cannot be read only gives a warning.\<close>

definition readCustomCss :: "'d world \<Rightarrow> PdfOptions \<Rightarrow> js_string effect" where
  "readCustomCss w options =
     (case opt_css options of
        None \<Rightarrow> returns []
      | Some path \<Rightarrow>
          if path = [] then returns []
          else calls ReadCss
                 (case readFile w path of Inl e \<Rightarrow> Inr [] | Inr text \<Rightarrow> Inr text))"

definition failure :: "js_string option \<Rightarrow> ConversionResult" where
  "failure msg = \<lparr>success = False, outputPath = [], result_error = msg, stats = None\<rparr>"

definition convert_steps :: "'d world \<Rightarrow> PdfOptions \<Rightarrow> ConversionResult effect" where
  "convert_steps w options =
     and_then (validateInputFile w (opt_input options)) (\<lambda>_.
     and_then (calls ReadFile (readFile w (opt_input options))) (\<lambda>markdownContent.
       let validation = validateMarkdown markdownContent in
       if \<not> valid validation then returns (failure (error validation))
       else
     and_then (calls ParseMarkdown
        (case marked_throws w markdownContent of
           Some e \<Rightarrow> Inl e
         | None \<Rightarrow> Inr (parseMarkdown (marked_of w) markdownContent))) (\<lambda>parsed0.
     and_then (calls ProcessCodeBlocks
        (processCodeBlocks w (html parsed0) (mapThemeToHighlightTheme (opt_theme options))))
        (\<lambda>highlightedHtml.
       let parsed = parsed0\<lparr>html := highlightedHtml\<rparr> in
     and_then (readCustomCss w options) (\<lambda>customCss.
       let document = generateHtml (sheets_of w) (localeDate_of w) parsed
                        (options\<lparr>opt_css := Some customCss\<rparr>);
           outputPath = (if truthy (opt_output options)
                         then when_truthy (opt_output options) (\<lambda>s. s)
                         else defaultOutputPath w (opt_input options))
       in
     and_then (calls Mkdir (mkdir w (dirname w outputPath))) (\<lambda>_.
     and_then (calls GeneratePdf
        (generatePdf w document outputPath options (title (frontMatter parsed)))) (\<lambda>_.
     and_then (calls AddMetadata (addMetadata w outputPath (frontMatter parsed))) (\<lambda>_.
     and_then (calls GetPdfStats (getPdfStats w outputPath)) (\<lambda>(n, bytes).
       returns \<lparr>success = True, outputPath = outputPath, result_error = None,
                stats = Some \<lparr>pages = n, size = bytes,
                              duration = endTime w - startTime w\<rparr>\<rparr>)))))))))"

text \<open>The \<open>catch\<close>: the message of an \<open>Error\<close>, a fixed text for anything else.\<close>

definition convertMarkdownToPdf :: "'d world \<Rightarrow> PdfOptions \<Rightarrow> ConversionResult \<times> stage list" where
  "convertMarkdownToPdf w options =
     (case convert_steps w options [] of
        (Inr result, log) \<Rightarrow> (result, log)
      | (Inl (Error message), log) \<Rightarrow> (failure (Some message), log)
      | (Inl NotAnError, log) \<Rightarrow> (failure (Some ''Unknown error occurred''), log))"

section \<open>Sample inputs\<close>

text \<open>
  A document, a front matter and a world for the instances below: the library renders a
  heading of level \<open>l\<close> as an \<open>h\<close> element without attributes; the file system knows an empty
  file, a file of 10485761 letters and a file of 5242881 accented letters (U+00E9, two bytes
  each in UTF-8).
\<close>

definition sample_library :: "unit marked_library" where
  "sample_library =
     \<lparr>matter = (\<lambda>s. (\<lparr>title = None, author = None, date = None, subtitle = None,
                         fm_keywords = None\<rparr>, s)),
      lexer = (\<lambda>s. [Heading ''Title'' 1 ''Title'', Heading ''A'' 2 ''A'', Block ''<p>text1</p>'',
                     Heading ''Deep'' 4 ''Deep'', Heading ''B'' 2 ''B'', Block ''<p>text2</p>'']),
      originalHeading = (\<lambda>t l r. ''<h'' @ [digit_char l] @ ''>'' @ t @ ''</h'' @ [digit_char l] @ ''>'')\<rparr>"

definition sample_world :: "unit world" where
  "sample_world =
     \<lparr>sheets_of = \<lparr>baseStyles = ''body {}'', darkStyles = [], academicStyles = [],
                    minimalStyles = []\<rparr>,
      localeDate_of = (\<lambda>d. ''1/15/2025''),
      marked_of = sample_library,
      marked_throws = (\<lambda>s. None),
      stat = (\<lambda>p. if p = ''empty.md'' \<or> p = ''big.md'' \<or> p = ''accents.md'' then IsFile
                    else ENOENT),
      readFile = (\<lambda>p. if p = ''empty.md'' then Inr []
                        else if p = ''big.md'' then Inr (replicate 10485761 (CHR ''a''))
                        else if p = ''accents.md'' then Inr (replicate 5242881 (CHR 0xE9))
                        else Inl (Error ''ENOENT'')),
      processCodeBlocks = (\<lambda>h t. Inr h),
      defaultOutputPath = (\<lambda>p. ''out.pdf''),
      dirname = (\<lambda>p. ''.''),
      mkdir = (\<lambda>p. Inr ()),
      generatePdf = (\<lambda>h p opts t. Inr ()),
      addMetadata = (\<lambda>p f. Inr ()),
      getPdfStats = (\<lambda>p. Inr (1, 1000)),
      startTime = 0,
      endTime = 1\<rparr>"

definition sample_options :: "js_string \<Rightarrow> PdfOptions" where
  "sample_options path =
     \<lparr>opt_input = path, opt_output = None, opt_theme = None, opt_toc = True,
      opt_pageNumbers = True, opt_css = None\<rparr>"



section \<open>Properties of the heading identifiers\<close>

lemmas char_class_defs = isWhiteSpace_def isLineTerminator_def isDigit_def isAsciiUpper_def
  isAsciiLower_def isWordChar_def

lemma code_unit_char_of: "code_unit (char_of n) = n mod 256"
  by (simp add: code_unit_def)

lemma code_unit_lt: "code_unit c < 256"
  by (simp add: code_unit_def)

lemma code_unit_marks: "code_unit (CHR ''_'') = 95" "code_unit (CHR ''-'') = 45"
  by (simp_all add: code_unit_def)

lemma toLowerCase_unit_not_upper: "\<not> isAsciiUpper (toLowerCase_unit c)"
proof -
  have "code_unit c < 256" by (rule code_unit_lt)
  then show ?thesis
    unfolding toLowerCase_unit_def isAsciiUpper_def Let_def
    by (auto simp: code_unit_char_of)
qed

lemma kept_lower_cases:
  "keptInId (toLowerCase_unit c) \<Longrightarrow> isIdChar (toLowerCase_unit c) \<or> isWhiteSpace (toLowerCase_unit c)"
  using toLowerCase_unit_not_upper [of c]
  by (auto simp: keptInId_def isIdChar_def isWordChar_def)

lemma filter_kept:
  "list_all (\<lambda>c. isIdChar c \<or> isWhiteSpace c) (filter keptInId (toLowerCase s))"
  by (induction s) (auto simp: toLowerCase_def dest: kept_lower_cases)

lemma list_all_dropWhile: "list_all Q s \<Longrightarrow> list_all Q (dropWhile P s)"
  by (induction s) auto

lemma replace_ws_chars:
  "list_all (\<lambda>c. isIdChar c \<or> isWhiteSpace c) s \<Longrightarrow>
   list_all isIdChar (replace_runs isWhiteSpace ''-'' s)"
proof (induction isWhiteSpace "''-''" s rule: replace_runs.induct)
  case 1
  then show ?case by simp
next
  case (2 c cs)
  then show ?case
    by (auto simp: list_all_dropWhile isIdChar_def)
qed

lemma replace_hyphen_chars:
  "list_all isIdChar s \<Longrightarrow> list_all isIdChar (replace_runs (\<lambda>c. c = CHR ''-'') ''-'' s)"
proof (induction "\<lambda>c. c = CHR ''-''" "''-''" s rule: replace_runs.induct)
  case 1
  then show ?case by simp
next
  case (2 c cs)
  then show ?case
    by (auto simp: list_all_dropWhile isIdChar_def)
qed

lemma replace_runs_head:
  "s \<noteq> [] \<Longrightarrow> \<not> P (hd s) \<Longrightarrow> hd (replace_runs P r s) = hd s \<and> replace_runs P r s \<noteq> []"
  by (cases s) auto

lemma dropWhile_head: "dropWhile P s \<noteq> [] \<Longrightarrow> \<not> P (hd (dropWhile P s))"
  by (simp add: hd_dropWhile)

lemma has_double_hyphen_Cons:
  "has_double_hyphen (a # s) = ((s \<noteq> [] \<and> a = CHR ''-'' \<and> hd s = CHR ''-'') \<or> has_double_hyphen s)"
  by (cases s) auto

lemma replace_runs_single:
  "(\<forall>c. P c = (c = CHR ''-'')) \<Longrightarrow> r = ''-'' \<Longrightarrow>
   \<not> has_double_hyphen (replace_runs P r s)"
proof (induction P r s rule: replace_runs.induct)
  case (1 P r)
  then show ?case by simp
next
  case (2 P r c cs)
  note hy = "2.prems"(1) and r = "2.prems"(2)
  show ?case
  proof (cases "P c")
    case True
    define rest where "rest = dropWhile P cs"
    have ih: "\<not> has_double_hyphen (replace_runs P r rest)"
      using "2.IH"(1) [OF True hy r] by (simp add: rest_def)
    have hd_rest: "rest \<noteq> [] \<Longrightarrow> \<not> P (hd rest)"
      unfolding rest_def by (rule dropWhile_head)
    have unfold: "replace_runs P r (c # cs) = CHR ''-'' # replace_runs P r rest"
      using True r by (simp add: rest_def)
    show ?thesis
    proof (cases rest)
      case Nil
      then show ?thesis unfolding unfold by simp
    next
      case (Cons d ds)
      with hd_rest have "\<not> P d" by simp
      then have "d \<noteq> CHR ''-''" using hy by simp
      then show ?thesis
        using ih \<open>\<not> P d\<close> unfolding unfold Cons by simp
    qed
  next
    case False
    have unfold: "replace_runs P r (c # cs) = c # replace_runs P r cs"
      using False by simp
    have ih: "\<not> has_double_hyphen (replace_runs P r cs)"
      using "2.IH"(2) [OF False hy r] by simp
    have "c \<noteq> CHR ''-''" using False hy by simp
    then show ?thesis
      unfolding unfold using ih
      by (cases "replace_runs P r cs") simp_all
  qed
qed

lemma replace_hyphen_single:
  "\<not> has_double_hyphen (replace_runs (\<lambda>c. c = CHR ''-'') ''-'' s)"
  by (rule replace_runs_single) simp_all

lemma idChar_not_space: "isIdChar c \<Longrightarrow> \<not> isWhiteSpace c"
  by (auto simp: isIdChar_def char_class_defs Let_def code_unit_marks)

lemma trim_no_space: "list_all (\<lambda>c. \<not> isWhiteSpace c) s \<Longrightarrow> trim s = s"
proof -
  assume a: "list_all (\<lambda>c. \<not> isWhiteSpace c) s"
  then have 1: "dropWhile isWhiteSpace s = s"
    by (cases s) auto
  from a have "list_all (\<lambda>c. \<not> isWhiteSpace c) (rev s)"
    by (simp add: list_all_iff)
  then have 2: "dropWhile isWhiteSpace (rev s) = rev s"
    by (cases "rev s") auto
  show ?thesis by (simp add: trim_def 1 2)
qed

lemma idChar_lower: "isIdChar c \<Longrightarrow> toLowerCase_unit c = c"
  by (auto simp: isIdChar_def char_class_defs Let_def toLowerCase_unit_def code_unit_marks)

lemma generateId_untrimmed:
  "generateId t = replace_runs (\<lambda>c. c = CHR ''-'') ''-''
       (replace_runs isWhiteSpace ''-'' (filter keptInId (toLowerCase t)))"
proof -
  let ?u = "replace_runs (\<lambda>c. c = CHR ''-'') ''-''
       (replace_runs isWhiteSpace ''-'' (filter keptInId (toLowerCase t)))"
  have "list_all isIdChar ?u"
    by (intro replace_hyphen_chars replace_ws_chars filter_kept)
  then have "list_all (\<lambda>c. \<not> isWhiteSpace c) ?u"
    by (auto simp: list_all_iff idChar_not_space)
  then show ?thesis
    unfolding generateId_def by (rule trim_no_space)
qed

lemma generateId_chars: "list_all isIdChar (generateId t)"
  unfolding generateId_untrimmed
  by (intro replace_hyphen_chars replace_ws_chars filter_kept)

text \<open>
  Claim C1, as the code has it. For every heading text the identifier consists of lower-case
  letters, digits, underscores and hyphens only (the underscore belongs to \<open>\w\<close> and is
  kept), it has no two hyphens in a row, and lower-casing it again changes nothing.
\<close>

theorem generateId_identifier:
  "list_all isIdChar (generateId t) \<and>
   \<not> has_double_hyphen (generateId t) \<and>
   toLowerCase (generateId t) = generateId t"
proof -
  have "toLowerCase (generateId t) = generateId t"
    using generateId_chars [of t]
    by (simp add: toLowerCase_def list_all_iff map_idI idChar_lower)
  moreover have "\<not> has_double_hyphen (generateId t)"
    unfolding generateId_untrimmed by (rule replace_hyphen_single)
  ultimately show ?thesis
    using generateId_chars [of t] by simp
qed

text \<open>The same for the heading \<open>Getting Started: v2_0\<close>, whose identifier is \<open>getting-started-v2_0\<close>.\<close>

theorem generateId_identifier_witness:
  "list_all isIdChar (generateId ''Getting Started: v2_0'') \<and>
   \<not> has_double_hyphen (generateId ''Getting Started: v2_0'') \<and>
   toLowerCase (generateId ''Getting Started: v2_0'') = generateId ''Getting Started: v2_0''"
  by (rule generateId_identifier)

text \<open>
  Claim C1 as the specification states it fails: the heading text \<open>-a_b -\<close> gets the
  identifier \<open>-a_b-\<close>, which holds an underscore and starts and ends with a hyphen.
\<close>

theorem generateId_counterexample:
  "generateId ''-a_b -'' = ''-a_b-'' \<and> \<not> spec_identifier (generateId ''-a_b -'')"
  by (simp add: generateId_def spec_identifier_def toLowerCase_def toLowerCase_unit_def
      keptInId_def trim_def startsWith_def endsWith_def char_class_defs code_unit_def)

section \<open>Properties of the section wrapper\<close>

lemma startsWith_simps:
  "startsWith s [] = True"
  "startsWith [] (p # ps) = False"
  "startsWith (c # cs) (p # ps) = (c = p \<and> startsWith cs ps)"
  by (simp_all add: startsWith_def)

lemma startsWith_append: "startsWith (p @ r) p"
  by (simp add: startsWith_def)

lemma startsWith_iff: "startsWith s p = (\<exists>r. s = p @ r)"
  unfolding startsWith_def
  by (metis append_eq_conv_conj append_take_drop_id)

lemma startsWith_extend: "startsWith a p \<Longrightarrow> startsWith (a @ b) p"
  by (auto simp: startsWith_iff)

lemma endsWith_Cons: "endsWith s p \<Longrightarrow> endsWith (c # s) p"
  unfolding endsWith_def by (simp add: startsWith_extend)

lemma endsWith_prepend: "endsWith s p \<Longrightarrow> endsWith (a @ s) p"
  by (induction a) (auto simp: endsWith_Cons)

lemma startsWith_take: "startsWith s p \<Longrightarrow> take (length p) s = p"
  by (simp add: startsWith_def)

lemma startsWith_longer:
  "take (length a) b = a \<Longrightarrow> startsWith a p \<Longrightarrow> startsWith b p"
  by (metis append_take_drop_id startsWith_extend)

lemma tag_rest_prefix: "tag_rest s = Some t \<Longrightarrow> take (length t) s = t"
  by (induction s arbitrary: t) (auto split: if_splits)

lemma heading_rest_prefix: "heading_rest s = Some h \<Longrightarrow> take (length h) s = h"
  by (induction s arbitrary: h) (auto split: if_splits simp: startsWith_def)

lemma heading_rest_end: "heading_rest s = Some h \<Longrightarrow> endsWith h ''</h2>''"
proof (induction s arbitrary: h)
  case Nil
  then show ?case by simp
next
  case (Cons c cs)
  show ?case
  proof (cases "startsWith (c # cs) ''</h2>''")
    case True
    with Cons.prems show ?thesis by (simp add: endsWith_def startsWith_def)
  next
    case False
    with Cons.prems obtain h' where h': "heading_rest cs = Some h'" "h = c # h'"
      by (auto split: if_splits)
    from Cons.IH [OF h'(1)] show ?thesis
      unfolding h'(2) by (rule endsWith_Cons)
  qed
qed

lemma section_body_prefix: "take (length (section_body s)) s = section_body s"
  by (induction s) auto

lemma section_body_rest:
  "drop (length (section_body s)) s = [] \<or> startsWith (drop (length (section_body s)) s) ''<h2''"
  by (induction s) auto

lemma section_body_no_h2: "\<not> occurs (section_body s) ''<h2''"
proof (induction s)
  case Nil
  then show ?case by simp
next
  case (Cons c cs)
  show ?case
  proof (cases "startsWith (c # cs) ''<h2''")
    case True
    then show ?thesis by simp
  next
    case False
    have "take (length (c # section_body cs)) (c # cs) = c # section_body cs"
      by (simp add: section_body_prefix)
    then have "\<not> startsWith (c # section_body cs) ''<h2''"
      using False startsWith_longer by blast
    with False Cons.IH show ?thesis by simp
  qed
qed

lemma match_h2_shape:
  assumes "match_h2 s = Some (g1, g2)"
  shows "startsWith g1 ''<h2'' \<and> endsWith g1 ''</h2>'' \<and> take (length g1) s = g1 \<and>
         g2 = section_body (drop (length g1) s)"
proof -
  from assms have st: "startsWith s ''<h2''"
    by (auto simp: match_h2_def split: if_splits)
  from assms st obtain t where t: "tag_rest (drop 3 s) = Some t"
    by (auto simp: match_h2_def split: option.splits)
  from assms st t obtain h where h: "heading_rest (drop (3 + length t) s) = Some h"
    by (auto simp: match_h2_def split: option.splits)
  from assms st t h have g1: "g1 = ''<h2'' @ t @ h"
    and g2: "g2 = section_body (drop (3 + length t + length h) s)"
    by (auto simp: match_h2_def)
  from st obtain r where r: "s = ''<h2'' @ r" by (auto simp: startsWith_iff)
  have d3: "drop 3 s = r" unfolding r by simp
  have t': "take (length t) r = t" using tag_rest_prefix [OF t] d3 by simp
  have dt: "drop (3 + length t) s = drop (length t) r"
    using d3 by (metis drop_drop add.commute)
  have h': "take (length h) (drop (length t) r) = h" using heading_rest_prefix [OF h] dt by simp
  have "r = t @ h @ drop (length h) (drop (length t) r)"
    using t' h' by (metis append_take_drop_id)
  then have "s = g1 @ drop (length h) (drop (length t) r)"
    unfolding g1 using r by simp
  then have pre: "take (length g1) s = g1"
    by (metis append_eq_conv_conj)
  have e: "endsWith g1 ''</h2>''"
    unfolding g1 using endsWith_prepend [OF heading_rest_end [OF h], of "''<h2'' @ t"] by simp
  have b: "startsWith g1 ''<h2''" unfolding g1 by (simp add: startsWith_def)
  have lg: "3 + length t + length h = length g1" unfolding g1 by simp
  from b e pre g2 [unfolded lg] show ?thesis by blast
qed

lemma match_h2_split:
  assumes "match_h2 s = Some (g1, g2)"
  shows "s = g1 @ g2 @ drop (length g1 + length g2) s" and "3 \<le> length g1"
proof -
  from match_h2_shape [OF assms] have pre: "take (length g1) s = g1"
    and g2: "g2 = section_body (drop (length g1) s)" and st: "startsWith g1 ''<h2''" by auto
  have "take (length g2) (drop (length g1) s) = g2"
    unfolding g2 by (rule section_body_prefix)
  then have "drop (length g1) s = g2 @ drop (length g2) (drop (length g1) s)"
    by (metis append_take_drop_id)
  then have "s = g1 @ g2 @ drop (length g2) (drop (length g1) s)"
    using pre by (metis append_take_drop_id)
  then show "s = g1 @ g2 @ drop (length g1 + length g2) s"
    by (simp add: add.commute)
  from st show "3 \<le> length g1"
    by (cases g1; cases "tl g1"; cases "tl (tl g1)") (auto simp: startsWith_def)
qed

lemma pieces_source: "concat (map piece_source (h2_pieces s)) = s"
proof (induction s rule: h2_pieces.induct)
  case 1
  then show ?case by simp
next
  case (2 c cs)
  show ?case
  proof (cases "match_h2 (c # cs)")
    case None
    with 2(1) show ?thesis by simp
  next
    case (Some g)
    obtain g1 g2 where g: "g = (g1, g2)" by (cases g)
    have m: "match_h2 (c # cs) = Some (g1, g2)" using Some g by simp
    from match_h2_split [OF m] have sp: "c # cs = g1 @ g2 @ drop (length g1 + length g2) (c # cs)"
      and len: "3 \<le> length g1" by auto
    have d: "drop (length g1 + length g2) (c # cs) = drop (length g1 + length g2 - 1) cs"
      using len by (cases "length g1 + length g2") auto
    have ih: "concat (map piece_source (h2_pieces (drop (length g1 + length g2 - 1) cs))) =
              drop (length g1 + length g2 - 1) cs"
      using 2(2) [OF m [unfolded g [symmetric]] g [symmetric]] .
    have "h2_pieces (c # cs) = Section g1 g2 # h2_pieces (drop (length g1 + length g2 - 1) cs)"
      using m by simp
    then have "concat (map piece_source (h2_pieces (c # cs))) =
               g1 @ g2 @ drop (length g1 + length g2 - 1) cs"
      using ih by simp
    also have "\<dots> = c # cs" using sp d by simp
    finally show ?thesis .
  qed
qed

lemma match_h2_None: "\<not> startsWith s ''<h2'' \<Longrightarrow> match_h2 s = None"
  by (simp add: match_h2_def)

lemma pieces_lead:
  "h2_pieces s = map Unmatched (section_body s) @ h2_pieces (drop (length (section_body s)) s)"
  by (induction s) (auto simp: match_h2_None)

lemma replace_lead:
  "replace_h2_sections s =
     section_body s @ replace_h2_sections (drop (length (section_body s)) s)"
proof -
  have "concat (map piece_wrapped (map Unmatched u)) = u" for u
    by (induction u) auto
  then show ?thesis
    unfolding replace_h2_sections_def
    by (subst pieces_lead) simp
qed

lemma lead_step:
  assumes "\<not> startsWith (c # cs) ''<h2''" and "x = [] \<or> hd x = CHR ''<''"
  shows "\<not> startsWith (c # section_body cs @ x) ''<h2''"
proof (cases cs)
  case Nil
  with assms show ?thesis by (cases x) (auto simp: startsWith_simps)
next
  case (Cons d ds)
  show ?thesis
  proof (cases ds)
    case Nil
    with Cons assms show ?thesis by (cases x) (auto simp: startsWith_simps)
  next
    case (Cons e es)
    with \<open>cs = d # ds\<close> assms show ?thesis
      by (cases x) (auto simp: startsWith_simps)
  qed
qed

lemma indexOf_lead:
  "x = [] \<or> hd x = CHR ''<'' \<Longrightarrow>
   indexOf_at i (section_body s @ x) ''<h2'' = indexOf_at (i + length (section_body s)) x ''<h2''"
proof (induction s arbitrary: i)
  case Nil
  then show ?case by simp
next
  case (Cons c cs)
  show ?case
  proof (cases "startsWith (c # cs) ''<h2''")
    case True
    then show ?thesis by simp
  next
    case False
    from lead_step [OF False Cons.prems]
    have "indexOf_at i (c # section_body cs @ x) ''<h2'' =
          indexOf_at (Suc i) (section_body cs @ x) ''<h2''" by simp
    with False Cons.IH [OF Cons.prems, of "Suc i"] show ?thesis by simp
  qed
qed

lemma indexOf_at_none: "\<not> occurs s p \<Longrightarrow> indexOf_at i s p = - 1"
  by (induction s arbitrary: i) auto

lemma indexOf_at_some: "occurs s p \<Longrightarrow> int i \<le> indexOf_at i s p"
proof (induction s arbitrary: i)
  case Nil
  then show ?case by simp
next
  case (Cons c cs)
  show ?case
  proof (cases "startsWith (c # cs) p")
    case True
    then show ?thesis by simp
  next
    case False
    with Cons.prems have "occurs cs p" by simp
    from Cons.IH [OF this, of "Suc i"] False show ?thesis by simp
  qed
qed

lemma indexOf_negative: "(indexOf s p < 0) = (\<not> occurs s p)"
  unfolding indexOf_def
  using indexOf_at_none [of s p 0] indexOf_at_some [of s p 0] by fastforce

lemma replace_no_h2: "\<not> occurs s ''<h2'' \<Longrightarrow> replace_h2_sections s = s"
proof -
  assume a: "\<not> occurs s ''<h2''"
  have "h2_pieces s = map Unmatched s" using a
    by (induction s) (auto simp: match_h2_None)
  moreover have "concat (map piece_wrapped (map Unmatched u)) = u" for u
    by (induction u) auto
  ultimately show ?thesis by (simp add: replace_h2_sections_def)
qed

lemma wrap_no_h2: "\<not> occurs s ''<h2'' \<Longrightarrow> wrapContentSections s = s"
  by (simp add: wrapContentSections_def replace_no_h2 indexOf_def indexOf_at_none)

lemma trim_empty_iff: "(trim s = []) = (\<forall>c\<in>set s. isWhiteSpace c)"
proof -
  have "(dropWhile isWhiteSpace (rev (dropWhile isWhiteSpace s)) = []) =
        (\<forall>c\<in>set (dropWhile isWhiteSpace s). isWhiteSpace c)"
    by (simp add: dropWhile_eq_Nil_conv)
  also have "\<dots> = (dropWhile isWhiteSpace s = [])"
  proof (cases "dropWhile isWhiteSpace s")
    case Nil
    then show ?thesis by (simp del: dropWhile_eq_Nil_conv)
  next
    case (Cons a as)
    then have "\<not> isWhiteSpace a"
      using hd_dropWhile [of isWhiteSpace s] by auto
    with Cons show ?thesis by auto
  qed
  also have "\<dots> = (\<forall>c\<in>set s. isWhiteSpace c)"
    by (simp add: dropWhile_eq_Nil_conv)
  finally show ?thesis by (simp add: trim_def)
qed

lemma section_open_length: "length section_open = 21"
  by (simp add: section_open_def)

lemma section_open_hd: "section_open @ y \<noteq> [] \<and> hd (section_open @ y) = CHR ''<''"
  by (simp add: section_open_def)

lemma indexOf_at_start: "startsWith y p \<Longrightarrow> indexOf_at k y p = int k"
  by (cases y) (auto simp: startsWith_def)

lemma indexOf_open:
  "startsWith y ''<h2'' \<Longrightarrow> indexOf_at i (section_open @ y) ''<h2'' = int i + 21"
  by (simp add: section_open_def startsWith_simps indexOf_at_start)

lemma trim_lead_open: "trim (u @ section_open) \<noteq> []"
proof -
  have "CHR ''>'' \<in> set (u @ section_open)" by (simp add: section_open_def)
  moreover have "\<not> isWhiteSpace (CHR ''>'')" by (simp add: isWhiteSpace_def code_unit_def)
  ultimately show ?thesis unfolding trim_empty_iff by blast
qed

lemma replace_match:
  assumes m: "match_h2 v = Some (g1, g2)"
  shows "replace_h2_sections v =
         section_open @ g1 @ g2 @ section_close @
         replace_h2_sections (drop (length g1 + length g2) v)"
proof (cases v)
  case Nil
  with m show ?thesis by (simp add: match_h2_def startsWith_simps)
next
  case (Cons c cs)
  from match_h2_split [OF m] have len: "3 \<le> length g1" by simp
  have d: "drop (length g1 + length g2) (c # cs) = drop (length g1 + length g2 - 1) cs"
    using len by (cases "length g1 + length g2") auto
  have "h2_pieces (c # cs) = Section g1 g2 # h2_pieces (drop (length g1 + length g2 - 1) cs)"
    using m Cons by simp
  then show ?thesis
    unfolding Cons replace_h2_sections_def d by simp
qed

lemma wrap_match:
  assumes m: "match_h2 (drop (length (section_body s)) s) = Some (g1, g2)"
  shows "wrapContentSections s =
         section_open @ section_body s @ section_open @ section_close @ g1 @ g2 @
         section_close @
         replace_h2_sections (drop (length g1 + length g2) (drop (length (section_body s)) s))"
proof -
  define u where "u = section_body s"
  define v where "v = drop (length u) s"
  define R where "R = replace_h2_sections (drop (length g1 + length g2) v)"
  define y where "y = g1 @ g2 @ section_close @ R"
  have m': "match_h2 v = Some (g1, g2)" using m by (simp add: u_def v_def)
  have w: "replace_h2_sections s = u @ section_open @ y"
    using replace_lead [of s] replace_match [OF m'] by (simp add: u_def v_def R_def y_def)
  have sy: "startsWith y ''<h2''"
    using match_h2_shape [OF m'] by (simp add: y_def startsWith_extend)
  have "indexOf (replace_h2_sections s) ''<h2'' = indexOf_at (0 + length u) (section_open @ y) ''<h2''"
    unfolding w indexOf_def u_def
    by (rule indexOf_lead) (simp add: section_open_hd)
  then have ix: "indexOf (u @ section_open @ y) ''<h2'' = int (length u + 21)"
    using indexOf_open [OF sy, of "length u"] by (simp add: w)
  have tk: "take (length u + 21) (u @ section_open @ y) = u @ section_open"
    by (simp add: section_open_length)
  have dr: "drop (length u + 21) (u @ section_open @ y) = y"
    by (simp add: section_open_length)
  have pos: "0 < int (length u + 21)" by simp
  have tr: "(trim (u @ section_open) = []) = False"
    using trim_lead_open [of u] by simp
  have "wrapContentSections s = section_open @ (u @ section_open) @ section_close @ y"
    unfolding wrapContentSections_def Let_def w ix
    by (simp only: nat_int tk dr pos tr if_True simp_thms)
  then show ?thesis
    by (simp add: u_def v_def R_def y_def)
qed

lemma replace_unmatched:
  assumes n: "match_h2 v = None" and st: "startsWith v ''<h2''"
  shows "replace_h2_sections v = ''<h2'' @ replace_h2_sections (drop 3 v)"
proof -
  from st obtain r where r: "v = ''<h2'' @ r" by (auto simp: startsWith_iff)
  have 1: "match_h2 (CHR ''h'' # CHR ''2'' # r) = None"
    by (rule match_h2_None) (simp add: startsWith_simps)
  have 2: "match_h2 (CHR ''2'' # r) = None"
    by (rule match_h2_None) (simp add: startsWith_simps)
  have "h2_pieces v = Unmatched (CHR ''<'') # Unmatched (CHR ''h'') # Unmatched (CHR ''2'') # h2_pieces r"
    using n 1 2 unfolding r by simp
  then show ?thesis
    unfolding replace_h2_sections_def by (simp add: r)
qed

lemma wrap_unmatched:
  assumes n: "match_h2 (drop (length (section_body s)) s) = None"
    and ne: "drop (length (section_body s)) s \<noteq> []"
  shows "wrapContentSections s =
         (if trim (section_body s) \<noteq> []
          then section_open @ section_body s @ section_close @
               replace_h2_sections (drop (length (section_body s)) s)
          else replace_h2_sections s)"
proof -
  define u where "u = section_body s"
  define v where "v = drop (length u) s"
  have st: "startsWith v ''<h2''"
    using section_body_rest [of s] ne by (simp add: u_def v_def)
  have n': "match_h2 v = None" using n by (simp add: u_def v_def)
  define y where "y = replace_h2_sections v"
  have sy: "startsWith y ''<h2''"
    unfolding y_def replace_unmatched [OF n' st] by (simp add: startsWith_simps)
  have hy: "y = [] \<or> hd y = CHR ''<''"
    unfolding y_def replace_unmatched [OF n' st] by simp
  have w: "replace_h2_sections s = u @ y"
    using replace_lead [of s] by (simp add: u_def v_def y_def)
  have "indexOf (replace_h2_sections s) ''<h2'' = indexOf_at (0 + length u) y ''<h2''"
    unfolding w indexOf_def u_def using hy by (rule indexOf_lead)
  also have "\<dots> = int (length u)"
    using indexOf_at_start [OF sy, of "0 + length u"] by simp
  finally have ix: "indexOf (u @ y) ''<h2'' = int (length u)" by (simp add: w)
  have tk: "take (length u) (u @ y) = u" and dr: "drop (length u) (u @ y) = y"
    by simp_all
  have "wrapContentSections s =
        (if trim u \<noteq> [] then section_open @ u @ section_close @ y else u @ y)"
  proof (cases "u = []")
    case True
    then show ?thesis
      unfolding wrapContentSections_def Let_def w ix by (simp add: trim_def)
  next
    case False
    then have pos: "0 < int (length u)" by simp
    show ?thesis
      unfolding wrapContentSections_def Let_def w ix
      by (simp only: nat_int tk dr pos if_True)
  qed
  then show ?thesis
    using w by (simp add: u_def v_def y_def)
qed

lemma marks_of_pieces: "marks_text (concat (map piece_marks ps)) = concat (map piece_wrapped ps)"
proof -
  have o: "concat (map (mark_text \<circ> Orig) u) = u" for u
    by (induction u) auto
  have "marks_text (piece_marks p) = piece_wrapped p" for p
    by (cases p) (simp_all add: marks_text_def o)
  then show ?thesis
    by (induction ps) (simp_all add: marks_text_def)
qed

lemma body_of_pieces:
  "without_wrappers (concat (map piece_marks ps)) = concat (map piece_source ps)"
proof -
  have o: "concat (map (mark_body \<circ> Orig) u) = u" for u
    by (induction u) auto
  have "without_wrappers (piece_marks p) = piece_source p" for p
    by (cases p) (simp_all add: without_wrappers_def o)
  then show ?thesis
    by (induction ps) (simp_all add: without_wrappers_def)
qed

lemma depth_origs: "depth_after (map Orig u @ ms) d = depth_after ms d"
  by (induction u) auto

lemma depth_append:
  "depth_after (a @ b) d = (case depth_after a d of None \<Rightarrow> None | Some e \<Rightarrow> depth_after b e)"
  by (induction a d rule: depth_after.induct) (auto split: nat.splits)

lemma depth_piece: "depth_after (piece_marks p @ ms) d = depth_after ms d"
  by (cases p) (simp_all add: depth_origs)

lemma depth_pieces: "depth_after (concat (map piece_marks ps) @ ms) d = depth_after ms d"
  by (induction ps) (simp_all add: depth_piece)

lemma first_pass_marks:
  "\<exists>ms. replace_h2_sections s = marks_text ms \<and> without_wrappers ms = s \<and>
        (\<forall>d rest. depth_after (ms @ rest) d = depth_after rest d)"
proof -
  let ?ms = "concat (map piece_marks (h2_pieces s))"
  have "replace_h2_sections s = marks_text ?ms"
    by (simp add: replace_h2_sections_def marks_of_pieces)
  moreover have "without_wrappers ?ms = s"
    by (simp add: body_of_pieces pieces_source)
  ultimately show ?thesis
    using depth_pieces by blast
qed

lemmas wrap_eval = wrapContentSections_def replace_h2_sections_def match_h2_def startsWith_simps
  indexOf_def trim_def isWhiteSpace_def isLineTerminator_def code_unit_def Let_def

text \<open>
  Claim C3, as the code has it. A body in which no \<open><h2\<close> occurs comes back unchanged: the
  replacement finds no match and \<open>indexOf\<close> answers -1, so no container is added and the
  whole body stays one unwrapped region.
\<close>

theorem wrapContentSections_no_h2: "indexOf markup ''<h2'' = - 1 \<Longrightarrow> wrapContentSections markup = markup"
proof -
  assume "indexOf markup ''<h2'' = - 1"
  then have "indexOf markup ''<h2'' < 0" by simp
  then have "\<not> occurs markup ''<h2''" by (simp add: indexOf_negative)
  then show ?thesis by (rule wrap_no_h2)
qed

text \<open>The same for a body with a title and a paragraph.\<close>

theorem wrapContentSections_no_h2_witness:
  "indexOf ''<h1>Title</h1><p>text</p>'' ''<h2'' = - 1 \<and>
   wrapContentSections ''<h1>Title</h1><p>text</p>'' = ''<h1>Title</h1><p>text</p>''"
proof -
  have h: "indexOf ''<h1>Title</h1><p>text</p>'' ''<h2'' = - 1"
    by (simp add: indexOf_def startsWith_simps)
  from wrapContentSections_no_h2 [OF h] h show ?thesis by simp
qed

text \<open>
  Claim C3 as stated fails: for the body \<open><p>x</p>\<close> the output is the body itself, not the
  body inside one section container, and it holds no section container at all.
\<close>

theorem wrapContentSections_no_h2_counterexample:
  "indexOf ''<p>x</p>'' ''<h2'' = - 1 \<and>
   wrapContentSections ''<p>x</p>'' = ''<p>x</p>'' \<and>
   wrapContentSections ''<p>x</p>'' \<noteq> section_open @ ''<p>x</p>'' @ section_close \<and>
   occurrences (wrapContentSections ''<p>x</p>'') section_open = 0"
  by (simp add: wrap_eval section_open_def)

















lemma heading_starts_tag: "\<not> startsWith s ''<h2'' \<Longrightarrow> \<not> heading_starts s"
proof
  assume n: "\<not> startsWith s ''<h2''" and "heading_starts s"
  then obtain k where "heading_element (take k s)"
    unfolding heading_starts_def list_ex_iff by blast
  then have "startsWith (take k s) ''<h2''" by (simp add: heading_element_def Let_def)
  then have "startsWith (take k s @ drop k s) ''<h2''" by (rule startsWith_extend)
  with n show False by simp
qed




text \<open>
  Claim C10. The output of the wrapper is the body with opening and closing tags of the
  container inserted: it can be read as a sequence of marks whose text is the output, whose
  characters without the inserted tags are exactly the body, and whose tags match.
\<close>

theorem wrapContentSections_only_inserts:
  "\<exists>ms. wrapContentSections markup = marks_text ms \<and> without_wrappers ms = markup \<and> tags_match ms"
proof -
  define u where "u = section_body markup"
  define v where "v = drop (length u) markup"
  have split: "markup = u @ v"
    using section_body_prefix [of markup] unfolding u_def v_def
    by (metis append_take_drop_id)
  have origs: "marks_text (map Orig x) = x \<and> without_wrappers (map Orig x) = x" for x
    by (induction x) (simp_all add: marks_text_def without_wrappers_def)
  show ?thesis
  proof (cases "v = []")
    case True
    with split have "markup = u" by simp
    then have "\<not> occurs markup ''<h2''"
      using section_body_no_h2 [of markup] by (simp add: u_def)
    then have "wrapContentSections markup = markup" by (rule wrap_no_h2)
    moreover have "depth_after (map Orig markup) 0 = Some 0"
      using depth_origs [of markup "[]" 0] by simp
    ultimately have "wrapContentSections markup = marks_text (map Orig markup) \<and>
        without_wrappers (map Orig markup) = markup \<and> tags_match (map Orig markup)"
      using origs [of markup] by (simp add: tags_match_def)
    then show ?thesis by blast
  next
    case False
    show ?thesis
    proof (cases "match_h2 v")
      case None
      from first_pass_marks [of v] obtain mv where mv: "replace_h2_sections v = marks_text mv"
        "without_wrappers mv = v" "\<forall>d rest. depth_after (mv @ rest) d = depth_after rest d"
        by blast
      from first_pass_marks [of markup] obtain mh where mh: "replace_h2_sections markup = marks_text mh"
        "without_wrappers mh = markup" "\<forall>d rest. depth_after (mh @ rest) d = depth_after rest d"
        by blast
      have w: "wrapContentSections markup =
               (if trim u \<noteq> [] then section_open @ u @ section_close @ replace_h2_sections v
                else replace_h2_sections markup)"
        using wrap_unmatched [of markup] None False by (simp add: u_def v_def)
      show ?thesis
      proof (cases "trim u \<noteq> []")
        case True
        define ms where "ms = OpenTag # map Orig u @ CloseTag # mv"
        have 1: "marks_text ms = section_open @ u @ section_close @ marks_text mv"
          using origs [of u] by (simp add: ms_def marks_text_def)
        have 2: "without_wrappers ms = u @ v"
          using origs [of u] mv(2) by (simp add: ms_def without_wrappers_def)
        have "depth_after (mv @ []) 0 = depth_after [] 0" using mv(3) by blast
        then have 3: "depth_after ms 0 = Some 0"
          by (simp add: ms_def depth_origs)
        from w True 1 2 3 mv(1) split have "wrapContentSections markup = marks_text ms \<and>
            without_wrappers ms = markup \<and> tags_match ms"
          by (simp add: tags_match_def)
        then show ?thesis by blast
      next
        case False
        have "depth_after (mh @ []) 0 = depth_after [] 0" using mh(3) by blast
        then have "tags_match mh" by (simp add: tags_match_def)
        with w False mh(1,2) have "wrapContentSections markup = marks_text mh \<and>
            without_wrappers mh = markup \<and> tags_match mh" by simp
        then show ?thesis by blast
      qed
    next
      case (Some g)
      obtain g1 g2 where g: "g = (g1, g2)" by (cases g)
      have m: "match_h2 v = Some (g1, g2)" using Some g by simp
      define r where "r = drop (length g1 + length g2) v"
      from first_pass_marks [of r] obtain mr where mr: "replace_h2_sections r = marks_text mr"
        "without_wrappers mr = r" "\<forall>d rest. depth_after (mr @ rest) d = depth_after rest d"
        by blast
      have v: "v = g1 @ g2 @ r" using match_h2_split(1) [OF m] by (simp add: r_def)
      have w: "wrapContentSections markup =
               section_open @ u @ section_open @ section_close @ g1 @ g2 @ section_close @
               replace_h2_sections r"
        using wrap_match [of markup g1 g2] m by (simp add: u_def v_def r_def)
      define ms where
        "ms = OpenTag # map Orig u @ OpenTag # CloseTag # map Orig (g1 @ g2) @ CloseTag # mr"
      have 1: "marks_text ms = section_open @ u @ section_open @ section_close @ g1 @ g2 @
               section_close @ marks_text mr"
        using origs [of u] origs [of "g1 @ g2"] by (simp add: ms_def marks_text_def)
      have 2: "without_wrappers ms = u @ g1 @ g2 @ r"
        using origs [of u] origs [of "g1 @ g2"] mr(2) by (simp add: ms_def without_wrappers_def)
      have "depth_after (mr @ []) 0 = depth_after [] 0" using mr(3) by blast
      then have 3: "depth_after ms 0 = Some 0"
        by (simp add: ms_def depth_origs)
      from w 1 2 3 mr(1) split v have "wrapContentSections markup = marks_text ms \<and>
          without_wrappers ms = markup \<and> tags_match ms"
        by (simp add: tags_match_def)
      then show ?thesis by blast
    qed
  qed
qed

text \<open>The same for a body with a title in front of a second-level heading.\<close>

theorem wrapContentSections_only_inserts_witness:
  "\<exists>ms. wrapContentSections ''<h1>T</h1><h2>A</h2>x'' = marks_text ms \<and>
        without_wrappers ms = ''<h1>T</h1><h2>A</h2>x'' \<and> tags_match ms"
  by (rule wrapContentSections_only_inserts)

section \<open>Properties of the table of contents\<close>

lemma render_tokens_toc:
  "snd (render_tokens original ts acc) =
     acc @ map (\<lambda>(l, r). \<lparr>item_id = generateId r, item_title = r, item_level = l\<rparr>)
             (filter (\<lambda>(l, r). l \<le> 3) (headings ts))"
proof (induction ts arbitrary: acc)
  case Nil
  then show ?case by simp
next
  case (Cons t ts)
  show ?case
  proof (cases t)
    case (Heading t1 l1 r1)
    then show ?thesis
      using Cons.IH by (simp add: heading_def Let_def split_beta)
  next
    case (Block b)
    then show ?thesis
      using Cons.IH by (simp add: split_beta)
  qed
qed

lemma render_tokens_markup:
  "fst (render_tokens original ts acc) = concat (map (token_markup original) ts)"
proof (induction ts arbitrary: acc)
  case Nil
  then show ?case by simp
next
  case (Cons t ts)
  show ?case
  proof (cases t)
    case (Heading t1 l1 r1)
    then show ?thesis
      using Cons.IH by (simp add: heading_def Let_def split_beta)
  next
    case (Block b)
    then show ?thesis
      using Cons.IH by (simp add: split_beta)
  qed
qed

lemma parseMarkdown_parts:
  "toc (parseMarkdown lib doc) =
     map (\<lambda>(l, r). \<lparr>item_id = generateId r, item_title = r, item_level = l\<rparr>)
       (filter (\<lambda>(l, r). l \<le> 3) (headings (lexer lib (snd (matter lib doc)))))"
  "html (parseMarkdown lib doc) =
     concat (map (token_markup (originalHeading lib)) (lexer lib (snd (matter lib doc))))"
  using render_tokens_toc [of "originalHeading lib" "lexer lib (snd (matter lib doc))" "[]"]
    render_tokens_markup [of "originalHeading lib" "lexer lib (snd (matter lib doc))" "[]"]
  by (simp_all add: parseMarkdown_def split_beta Let_def)

lemma filter_levels:
  "list_all (\<lambda>(l, r). 1 \<le> l \<and> l \<le> 6) hs \<Longrightarrow>
   filter (\<lambda>(l, r). l \<le> 3) hs = filter (\<lambda>(l, r). toc_level l) hs"
  by (induction hs) (auto simp: toc_level_def)

text \<open>
  Claim C7. When the headings of the document have the levels 1 to 6, the table of contents
  lists exactly the headings of level 1, 2 or 3, with their levels and raw texts, in
  document order, so it has as many entries as there are such headings; and the markup is
  the markup of all tokens, the deeper headings included.
\<close>

theorem parseMarkdown_toc:
  assumes "levels_1_to_6 (lexer lib (snd (matter lib doc)))"
  shows "map (\<lambda>e. (item_level e, item_title e)) (toc (parseMarkdown lib doc)) =
           filter (\<lambda>(l, r). toc_level l) (headings (lexer lib (snd (matter lib doc)))) \<and>
         length (toc (parseMarkdown lib doc)) =
           length (filter (\<lambda>(l, r). toc_level l) (headings (lexer lib (snd (matter lib doc))))) \<and>
         html (parseMarkdown lib doc) =
           concat (map (token_markup (originalHeading lib)) (lexer lib (snd (matter lib doc))))"
proof -
  let ?hs = "headings (lexer lib (snd (matter lib doc)))"
  have f: "filter (\<lambda>(l, r). l \<le> 3) ?hs = filter (\<lambda>(l, r). toc_level l) ?hs"
    using assms unfolding levels_1_to_6_def by (rule filter_levels)
  have m: "map (\<lambda>e. (item_level e, item_title e))
            (map (\<lambda>(l, r). \<lparr>item_id = generateId r, item_title = r, item_level = l\<rparr>) xs) = xs" for xs
    by (induction xs) auto
  have 1: "map (\<lambda>e. (item_level e, item_title e)) (toc (parseMarkdown lib doc)) =
           filter (\<lambda>(l, r). toc_level l) ?hs"
    unfolding parseMarkdown_parts(1) f by (rule m)
  have "length (map (\<lambda>e. (item_level e, item_title e)) (toc (parseMarkdown lib doc))) =
        length (filter (\<lambda>(l, r). toc_level l) ?hs)"
    using 1 by simp
  then have 2: "length (toc (parseMarkdown lib doc)) = length (filter (\<lambda>(l, r). toc_level l) ?hs)"
    by simp
  from 1 2 parseMarkdown_parts(2) [of lib doc] show ?thesis by blast
qed

lemma digit_char_values:
  "digit_char 1 = CHR ''1''" "digit_char 2 = CHR ''2''" "digit_char 3 = CHR ''3''"
  "digit_char 4 = CHR ''4''" "digit_char 5 = CHR ''5''" "digit_char 6 = CHR ''6''"
  by code_simp+

lemma digit_char_one: "digit_char (Suc 0) = CHR ''1''"
  using digit_char_values(1) by simp

text \<open>
  The same for the sample document: three entries for five headings and blocks, and the
  heading of level 4 in the markup.
\<close>

theorem parseMarkdown_toc_witness:
  "levels_1_to_6 (lexer sample_library (snd (matter sample_library ''doc''))) \<and>
   map (\<lambda>e. (item_level e, item_title e)) (toc (parseMarkdown sample_library ''doc'')) =
     [(1, ''Title''), (2, ''A''), (2, ''B'')] \<and>
   length (toc (parseMarkdown sample_library ''doc'')) = 3 \<and>
   html (parseMarkdown sample_library ''doc'') =
     ''<h1>Title</h1><h2>A</h2><p>text1</p><h4>Deep</h4><h2>B</h2><p>text2</p>''"
proof -
  have h: "levels_1_to_6 (lexer sample_library (snd (matter sample_library ''doc'')))"
    by (simp add: levels_1_to_6_def sample_library_def)
  from parseMarkdown_toc [OF h] h show ?thesis
    by (simp add: sample_library_def toc_level_def digit_char_values digit_char_one)
qed

lemma occurs_iff: "occurs s p = (\<exists>a b. s = a @ p @ b)"
proof (induction s)
  case Nil
  then show ?case by auto
next
  case (Cons c cs)
  show ?case
  proof
    assume "occurs (c # cs) p"
    then consider "startsWith (c # cs) p" | "occurs cs p" by auto
    then show "\<exists>a b. c # cs = a @ p @ b"
    proof cases
      case 1
      then obtain r where "c # cs = p @ r" by (auto simp: startsWith_iff)
      then have "c # cs = [] @ p @ r" by simp
      then show ?thesis by blast
    next
      case 2
      with Cons.IH obtain a b where "cs = a @ p @ b" by blast
      then have "c # cs = (c # a) @ p @ b" by simp
      then show ?thesis by blast
    qed
  next
    assume "\<exists>a b. c # cs = a @ p @ b"
    then obtain a b where ab: "c # cs = a @ p @ b" by blast
    show "occurs (c # cs) p"
    proof (cases a)
      case Nil
      with ab have "startsWith (c # cs) p" by (auto simp: startsWith_iff)
      then show ?thesis by simp
    next
      case (Cons d ds)
      with ab have "cs = ds @ p @ b" by simp
      with Cons.IH have "occurs cs p" by blast
      then show ?thesis by simp
    qed
  qed
qed

lemma join_contains: "x \<in> set xs \<Longrightarrow> \<exists>a b. join sep xs = a @ x @ b"
proof (induction sep xs rule: join.induct)
  case (1 sep)
  then show ?case by simp
next
  case (2 sep y)
  then have "join sep [y] = [] @ x @ []" by simp
  then show ?case by blast
next
  case (3 sep y z zs)
  show ?case
  proof (cases "x = y")
    case True
    then have "join sep (y # z # zs) = [] @ x @ (sep @ join sep (z # zs))" by simp
    then show ?thesis by blast
  next
    case False
    with 3 obtain a b where "join sep (z # zs) = a @ x @ b" by auto
    then have "join sep (y # z # zs) = (y @ sep @ a) @ x @ b" by simp
    then show ?thesis by blast
  qed
qed

lemma toc_entry_link:
  \<open>toc_entry e =
     (''<li class="toc-item toc-level-'' @ show_nat (item_level e) @ ''">\<newline>  '') @
     toc_link e @
     (escapeHtml (item_title e) @ ''</a>\<newline>  <span class="toc-item-page"></span>\<newline></li>'')\<close>
  by (simp add: toc_entry_def toc_link_def)

lemma generateToc_join:
  \<open>entries \<noteq> [] \<Longrightarrow>
   generateToc entries =
     ''<div class="toc">\<newline>  <h1 class="toc-title">Table of Contents</h1>\<newline>  <ul class="toc-list">\<newline>    '' @
     join ''\<newline>'' (map toc_entry entries) @
     ''\<newline>  </ul>\<newline></div>''\<close>
  by (simp add: generateToc_def)

lemma generateToc_link: "e \<in> set entries \<Longrightarrow> occurs (generateToc entries) (toc_link e)"
proof -
  assume e: "e \<in> set entries"
  then have "toc_entry e \<in> set (map toc_entry entries)" by simp
  from join_contains [OF this] obtain a b where
    j: "join ''\<newline>'' (map toc_entry entries) = a @ toc_entry e @ b" by blast
  from e have ne: "entries \<noteq> []" by auto
  obtain pre post where g: "generateToc entries = pre @ join ''\<newline>'' (map toc_entry entries) @ post"
    using generateToc_join [OF ne] by blast
  obtain c d where t: "toc_entry e = c @ toc_link e @ d"
    using toc_entry_link [of e] by blast
  have "generateToc entries = (pre @ a @ c) @ toc_link e @ (d @ b @ post)"
    unfolding g j t by simp
  then show ?thesis unfolding occurs_iff by blast
qed

text \<open>
  Claim C2, as the code has it by design. The identifier of every entry of the table of
  contents is \<open>generateId\<close> of the entry's own title, the raw text of its heading, and the
  table of contents links to \<open>#\<close> followed by that identifier. The target of an entry so
  depends on the text of its heading alone.
\<close>

theorem toc_link_targets:
  "list_all (\<lambda>e. item_id e = generateId (item_title e) \<and>
                 occurs (generateToc (toc (parseMarkdown lib doc))) (toc_link e))
     (toc (parseMarkdown lib doc))"
proof -
  have "\<forall>e \<in> set (toc (parseMarkdown lib doc)). item_id e = generateId (item_title e)"
    unfolding parseMarkdown_parts(1) by auto
  then show ?thesis
    unfolding list_all_iff using generateToc_link by blast
qed

text \<open>The same for the sample document.\<close>

theorem toc_link_targets_witness:
  "list_all (\<lambda>e. item_id e = generateId (item_title e) \<and>
                 occurs (generateToc (toc (parseMarkdown sample_library ''doc''))) (toc_link e))
     (toc (parseMarkdown sample_library ''doc''))"
  by (rule toc_link_targets)

text \<open>
  Claim C2 as stated fails. Two headings with the text \<open>Setup\<close> give two entries with the
  identifier \<open>setup\<close>; whatever identifiers the rendered headings carry, they cannot be the
  identifiers of the entries and give every entry exactly one heading to point at.
\<close>

theorem toc_link_targets_counterexample:
  "map item_id (snd (render_tokens (\<lambda>t l r. [])
       [Heading ''Setup'' 2 ''Setup'', Block ''<p>a</p>'', Heading ''Setup'' 2 ''Setup''] [])) =
     [''setup'', ''setup''] \<and>
   \<not> (\<exists>anchors. spec_links anchors (snd (render_tokens (\<lambda>t l r. [])
       [Heading ''Setup'' 2 ''Setup'', Block ''<p>a</p>'', Heading ''Setup'' 2 ''Setup''] [])))"
proof -
  have g: "generateId ''Setup'' = ''setup''"
    by code_simp
  show ?thesis
    by (simp add: heading_def g spec_links_def links_resolve_def)
qed

section \<open>Properties of the cover page\<close>





















section \<open>Properties of escaping, themes and the conversion\<close>












text \<open>
  \<open>decodeHtml\<close> is a different function: \<open>processCodeBlocks\<close> applies it to the text of code
  blocks, never to a title. It replaces \<open>&amp;\<close> before the other references, so it does
  not give back every escaped text.
\<close>

lemma decodeHtml_ampersand_first:
  "escapeHtml ''&lt;'' = ''&amp;lt;'' \<and> decodeHtml (escapeHtml ''&lt;'') = ''<''"
  by (simp add: escapeHtml_def escapeHtml_unit_def decodeHtml_def startsWith_simps)

text \<open>
  Claim C8 at the theme name \<open>constructor\<close>. The name is not one of the four themes, and
  \<open>getTheme\<close> returns the member the object of themes inherits under that name instead
  of the default bundle; the style sheet of the result prints as \<open>undefined\<close>.
\<close>

theorem getTheme_inherited_member:
  "''constructor'' \<notin> set getAvailableThemes \<and>
   getTheme sh (Some ''constructor'') = Inherited ''constructor'' \<and>
   getTheme sh (Some ''constructor'') \<noteq> Own (githubTheme sh) \<and>
   css_text (getTheme sh (Some ''constructor'')) = ''undefined''"
  by (simp add: getTheme_def get_property_def themes_def object_prototype_members_def
      getAvailableThemes_def css_text_def)

lemma getTheme_fallback:
  "themeName \<notin> set getAvailableThemes \<Longrightarrow> themeName \<notin> set object_prototype_members \<Longrightarrow>
   getTheme sh (Some themeName) = Own (githubTheme sh)"
  by (auto simp: getTheme_def get_property_def themes_def getAvailableThemes_def)

lemma validate_rejects:
  "doc = [] \<or> 10 * 1024 * 1024 < length doc \<Longrightarrow>
   \<not> valid (validateMarkdown doc) \<and> error (validateMarkdown doc) \<noteq> None"
  by (auto simp: validateMarkdown_def)

lemma utf8_size_empty: "(utf8_size doc = 0) = (doc = [])"
  by (cases doc) (simp_all add: utf8_size_def)

lemma utf8_size_ascii: "list_all (\<lambda>c. code_unit c < 128) doc \<Longrightarrow> utf8_size doc = length doc"
  by (induction doc) (simp_all add: utf8_size_def)

lemma utf8_size_replicate:
  "utf8_size (replicate n c) = n * (if code_unit c < 128 then 1 else 2)"
  by (induction n) (simp_all add: utf8_size_def)

text \<open>
  Claim C9, as the code has it. When the input file exists and is empty (zero bytes), or
  its text is longer than 10 * 1024 * 1024 characters (which is what \<open>content.length\<close>
  counts; a file of ASCII characters of more than 10 * 1024 * 1024 bytes is such a text),
  validation fails and the conversion ends with a failure result that carries the message
  of the validation and no output path; the only collaborators called are \<open>fs.stat\<close> and
  \<open>fs.readFile\<close>, so the parser is not invoked.
\<close>

theorem convert_rejects_before_parsing:
  assumes "stat w (opt_input options) = IsFile"
    and "readFile w (opt_input options) = Inr doc"
    and "utf8_size doc = 0 \<or> 10 * 1024 * 1024 < length doc \<or>
         (list_all (\<lambda>c. code_unit c < 128) doc \<and> 10 * 1024 * 1024 < utf8_size doc)"
  shows "\<not> valid (validateMarkdown doc) \<and>
         convertMarkdownToPdf w options = (failure (error (validateMarkdown doc)), [Stat, ReadFile]) \<and>
         success (fst (convertMarkdownToPdf w options)) = False \<and>
         outputPath (fst (convertMarkdownToPdf w options)) = [] \<and>
         ParseMarkdown \<notin> set (snd (convertMarkdownToPdf w options))"
proof -
  have "doc = [] \<or> 10 * 1024 * 1024 < length doc"
    using assms(3) utf8_size_empty [of doc] utf8_size_ascii [of doc] by auto
  then have v: "\<not> valid (validateMarkdown doc)"
    using validate_rejects by blast
  have "convert_steps w options [] = (Inr (failure (error (validateMarkdown doc))), [Stat, ReadFile])"
    using assms(1,2) v
    by (simp add: convert_steps_def and_then_def calls_def returns_def validateInputFile_def Let_def)
  then have c: "convertMarkdownToPdf w options =
      (failure (error (validateMarkdown doc)), [Stat, ReadFile])"
    by (simp add: convertMarkdownToPdf_def)
  show ?thesis
    unfolding c using v by (simp add: failure_def)
qed

lemma validate_big:
  "validateMarkdown (replicate 10485761 (CHR ''a'')) =
     \<lparr>valid = False, error = Some ''Markdown file is too large (max 10MB)''\<rparr>"
proof -
  have "\<not> isWhiteSpace (CHR ''a'')" by (simp add: isWhiteSpace_def code_unit_def)
  then have "trim (replicate 10485761 (CHR ''a'')) \<noteq> []"
    unfolding trim_empty_iff by simp
  then show ?thesis
    by (simp add: validateMarkdown_def)
qed

text \<open>The same for the empty file and for the file of 10485761 letters.\<close>

theorem convert_rejects_before_parsing_witness:
  "utf8_size [] = 0 \<and>
   convertMarkdownToPdf sample_world (sample_options ''empty.md'') =
     (failure (Some ''Markdown content is empty''), [Stat, ReadFile]) \<and>
   10 * 1024 * 1024 < length (replicate 10485761 (CHR ''a'')) \<and>
   convertMarkdownToPdf sample_world (sample_options ''big.md'') =
     (failure (Some ''Markdown file is too large (max 10MB)''), [Stat, ReadFile])"
proof -
  have s1: "stat sample_world (opt_input (sample_options ''empty.md'')) = IsFile"
    and r1: "readFile sample_world (opt_input (sample_options ''empty.md'')) = Inr []"
    and s2: "stat sample_world (opt_input (sample_options ''big.md'')) = IsFile"
    and r2: "readFile sample_world (opt_input (sample_options ''big.md'')) =
             Inr (replicate 10485761 (CHR ''a''))"
    by (simp_all add: sample_world_def sample_options_def)
  have z: "utf8_size [] = 0" by (simp add: utf8_size_def)
  have l: "10 * 1024 * 1024 < length (replicate 10485761 (CHR ''a''))" by simp
  have e: "utf8_size [] = 0 \<or> 10 * 1024 * 1024 < length ([]::js_string) \<or>
           (list_all (\<lambda>c. code_unit c < 128) [] \<and> 10 * 1024 * 1024 < utf8_size [])"
    using z by simp
  have b: "utf8_size (replicate 10485761 (CHR ''a'')) = 0 \<or>
           10 * 1024 * 1024 < length (replicate 10485761 (CHR ''a'')) \<or>
           (list_all (\<lambda>c. code_unit c < 128) (replicate 10485761 (CHR ''a'')) \<and>
            10 * 1024 * 1024 < utf8_size (replicate 10485761 (CHR ''a'')))"
    using l by blast
  have v: "validateMarkdown [] = \<lparr>valid = False, error = Some ''Markdown content is empty''\<rparr>"
    by (simp add: validateMarkdown_def)
  note c1 = convert_rejects_before_parsing [OF s1 r1 e, THEN conjunct2, THEN conjunct1]
  note c2 = convert_rejects_before_parsing [OF s2 r2 b, THEN conjunct2, THEN conjunct1]
  have c1': "convertMarkdownToPdf sample_world (sample_options ''empty.md'') =
     (failure (Some ''Markdown content is empty''), [Stat, ReadFile])"
    using c1 by (simp add: v)
  have c2': "convertMarkdownToPdf sample_world (sample_options ''big.md'') =
     (failure (Some ''Markdown file is too large (max 10MB)''), [Stat, ReadFile])"
    using c2 by (simp add: validate_big)
  show ?thesis
    by (rule conjI [OF z conjI [OF c1' conjI [OF l c2']]])
qed

lemma validate_accents:
  "validateMarkdown (replicate 5242881 (CHR 0xE9)) = \<lparr>valid = True, error = None\<rparr>"
proof -
  have "\<not> isWhiteSpace (CHR 0xE9)" by (simp add: isWhiteSpace_def code_unit_def)
  then have "trim (replicate 5242881 (CHR 0xE9)) \<noteq> []"
    unfolding trim_empty_iff by simp
  then show ?thesis
    by (simp add: validateMarkdown_def)
qed

text \<open>
  Claim C9 as stated fails. The file of 5242881 letters \<open>U+00E9\<close> has 10485762 bytes, more
  than 10 * 1024 * 1024, but its text has 5242881 characters: validation accepts it, the
  parser is invoked and the conversion succeeds.
\<close>

theorem convert_rejects_before_parsing_counterexample:
  "10 * 1024 * 1024 < utf8_size (replicate 5242881 (CHR 0xE9)) \<and>
   readFile sample_world (opt_input (sample_options ''accents.md'')) =
     Inr (replicate 5242881 (CHR 0xE9)) \<and>
   valid (validateMarkdown (replicate 5242881 (CHR 0xE9))) \<and>
   success (fst (convertMarkdownToPdf sample_world (sample_options ''accents.md''))) \<and>
   snd (convertMarkdownToPdf sample_world (sample_options ''accents.md'')) =
     [Stat, ReadFile, ParseMarkdown, ProcessCodeBlocks, Mkdir, GeneratePdf, AddMetadata,
      GetPdfStats]"
proof -
  have u: "10 * 1024 * 1024 < utf8_size (replicate 5242881 (CHR 0xE9))"
    by (simp add: utf8_size_replicate code_unit_def)
  have r: "readFile sample_world (opt_input (sample_options ''accents.md'')) =
     Inr (replicate 5242881 (CHR 0xE9))"
    by (simp add: sample_world_def sample_options_def)
  have v: "valid (validateMarkdown (replicate 5242881 (CHR 0xE9)))"
    by (simp add: validate_accents)
  have "convert_steps sample_world (sample_options ''accents.md'') [] =
     (Inr \<lparr>success = True, outputPath = ''out.pdf'', result_error = None,
           stats = Some \<lparr>pages = 1, size = 1000, duration = 1\<rparr>\<rparr>,
      [Stat, ReadFile, ParseMarkdown, ProcessCodeBlocks, Mkdir, GeneratePdf, AddMetadata,
       GetPdfStats])"
    by (simp add: convert_steps_def and_then_def calls_def returns_def validateInputFile_def
        readCustomCss_def validate_accents sample_world_def sample_options_def truthy_def)
  then have c: "convertMarkdownToPdf sample_world (sample_options ''accents.md'') =
     (\<lparr>success = True, outputPath = ''out.pdf'', result_error = None,
        stats = Some \<lparr>pages = 1, size = 1000, duration = 1\<rparr>\<rparr>,
      [Stat, ReadFile, ParseMarkdown, ProcessCodeBlocks, Mkdir, GeneratePdf, AddMetadata,
       GetPdfStats])"
    by (simp add: convertMarkdownToPdf_def)
  show ?thesis
    unfolding c using u r v by simp
qed

end
